theory Spec2Isabelle
  imports Main
begin

section \<open>Strings and numbers\<close>

text \<open>
  A Python \<open>str\<close> is represented by its UTF-8 encoding, a list of bytes (\<^typ>\<open>string\<close>).
  The program only concatenates strings, compares them for equality and replaces the space
  by the underscore; all three commute with the encoding, since no byte of a multi-byte
  UTF-8 sequence is an ASCII byte. The Korean literals of the source are given byte by
  byte, with their code points beside them.
\<close>

text \<open>\<open>str(n)\<close> for a Python integer: decimal digits, a minus sign when negative.\<close>

definition digit_char :: "nat \<Rightarrow> char" where
  "digit_char n = ''0123456789'' ! n"

function str_nat :: "nat \<Rightarrow> string" where
  "str_nat n = (if n < 10 then [digit_char n] else str_nat (n div 10) @ [digit_char (n mod 10)])"
  by pat_completeness auto
termination
  by (relation "measure (\<lambda>n. n)") auto

declare str_nat.simps [simp del]

definition str_int :: "int \<Rightarrow> string" where
  "str_int i = (if i < 0 then ''-'' @ str_nat (nat (- i)) else str_nat (nat i))"

text \<open>\<open>sep.join(xs)\<close>\<close>

fun join :: "string \<Rightarrow> string list \<Rightarrow> string" where
  "join sep [] = []"
| "join sep [x] = x"
| "join sep (x # y # ys) = x @ sep @ join sep (y # ys)"

text \<open>\<open>s.replace(" ", "_")\<close>\<close>

definition replace_space :: "string \<Rightarrow> string" where
  "replace_space s = map (\<lambda>c. if c = CHR '' '' then CHR ''_'' else c) s"

text \<open>\<open>d.get(key, default)\<close>, for a key that is absent (\<open>None\<close>) or present.\<close>

definition dict_get :: "'a option \<Rightarrow> 'a \<Rightarrow> 'a" where
  "dict_get v dflt = (case v of None \<Rightarrow> dflt | Some x \<Rightarrow> x)"

subsection \<open>The literals of the source\<close>

text \<open>the diagnosis prefix; code points U+C9C4 U+B2E8\<close>

definition ko_diag :: string where
  "ko_diag = [CHR 0xEC, CHR 0xA7, CHR 0x84, CHR 0xEB, CHR 0x8B, CHR 0xA8]"

text \<open>the action prefix; code points U+C870 U+CE58\<close>

definition ko_action :: string where
  "ko_action = [CHR 0xEC, CHR 0xA1, CHR 0xB0, CHR 0xEC, CHR 0xB9, CHR 0x98]"

text \<open>the word closing every title; code points U+B9AC U+D3EC U+D2B8\<close>

definition ko_report :: string where
  "ko_report = [CHR 0xEB, CHR 0xA6, CHR 0xAC, CHR 0xED, CHR 0x8F, CHR 0xAC, CHR 0xED,
     CHR 0x8A, CHR 0xB8]"

text \<open>the rest of a diagnosis text, after the diagnosis name (it holds one line feed); code
  points U+0020 U+B354 U+BBF8 U+0020 U+C810 U+AC80 U+0020 U+ACB0 U+ACFC U+C785 U+B2C8
  U+B2E4 U+002E U+000A U+CD94 U+D6C4 U+0020 U+C2E4 U+C81C U+0020 U+C810 U+AC80 U+0020
  U+B85C U+ADF8 U+002F U+D310 U+C815 U+0020 U+ACB0 U+ACFC U+AC00 U+0020 U+D45C U+C2DC
  U+B429 U+B2C8 U+B2E4 U+002E\<close>

definition ko_diag_text_tail :: string where
  "ko_diag_text_tail = [CHR 0x20, CHR 0xEB, CHR 0x8D, CHR 0x94, CHR 0xEB, CHR 0xAF,
     CHR 0xB8, CHR 0x20, CHR 0xEC, CHR 0xA0, CHR 0x90, CHR 0xEA, CHR 0xB2, CHR 0x80,
     CHR 0x20, CHR 0xEA, CHR 0xB2, CHR 0xB0, CHR 0xEA, CHR 0xB3, CHR 0xBC, CHR 0xEC,
     CHR 0x9E, CHR 0x85, CHR 0xEB, CHR 0x8B, CHR 0x88, CHR 0xEB, CHR 0x8B, CHR 0xA4,
     CHR 0x2E, CHR 0x0A, CHR 0xEC, CHR 0xB6, CHR 0x94, CHR 0xED, CHR 0x9B, CHR 0x84,
     CHR 0x20, CHR 0xEC, CHR 0x8B, CHR 0xA4, CHR 0xEC, CHR 0xA0, CHR 0x9C, CHR 0x20,
     CHR 0xEC, CHR 0xA0, CHR 0x90, CHR 0xEA, CHR 0xB2, CHR 0x80, CHR 0x20, CHR 0xEB,
     CHR 0xA1, CHR 0x9C, CHR 0xEA, CHR 0xB7, CHR 0xB8, CHR 0x2F, CHR 0xED, CHR 0x8C,
     CHR 0x90, CHR 0xEC, CHR 0xA0, CHR 0x95, CHR 0x20, CHR 0xEA, CHR 0xB2, CHR 0xB0,
     CHR 0xEA, CHR 0xB3, CHR 0xBC, CHR 0xEA, CHR 0xB0, CHR 0x80, CHR 0x20, CHR 0xED,
     CHR 0x91, CHR 0x9C, CHR 0xEC, CHR 0x8B, CHR 0x9C, CHR 0xEB, CHR 0x90, CHR 0xA9,
     CHR 0xEB, CHR 0x8B, CHR 0x88, CHR 0xEB, CHR 0x8B, CHR 0xA4, CHR 0x2E]"

text \<open>diagnosis table, row 1, column 1; code points U+B300 U+C0C1\<close>

definition ko_target :: string where
  "ko_target = [CHR 0xEB, CHR 0x8C, CHR 0x80, CHR 0xEC, CHR 0x83, CHR 0x81]"

text \<open>diagnosis table, row 1, column 2; code points U+C11C U+BC84 U+002D U+0041\<close>

definition ko_server_a :: string where
  "ko_server_a = [CHR 0xEC, CHR 0x84, CHR 0x9C, CHR 0xEB, CHR 0xB2, CHR 0x84, CHR 0x2D,
     CHR 0x41]"

text \<open>column 3 of the first row of both tables; code points U+B354 U+BBF8\<close>

definition ko_dummy :: string where
  "ko_dummy = [CHR 0xEB, CHR 0x8D, CHR 0x94, CHR 0xEB, CHR 0xAF, CHR 0xB8]"

text \<open>diagnosis table, row 2, column 1; code points U+C0C1 U+D0DC\<close>

definition ko_status :: string where
  "ko_status = [CHR 0xEC, CHR 0x83, CHR 0x81, CHR 0xED, CHR 0x83, CHR 0x9C]"

text \<open>diagnosis table, row 2, column 2; code points U+C810 U+AC80 U+C644 U+B8CC\<close>

definition ko_checked :: string where
  "ko_checked = [CHR 0xEC, CHR 0xA0, CHR 0x90, CHR 0xEA, CHR 0xB2, CHR 0x80, CHR 0xEC,
     CHR 0x99, CHR 0x84, CHR 0xEB, CHR 0xA3, CHR 0x8C]"

text \<open>diagnosis table, row 3, column 1; code points U+C694 U+C57D\<close>

definition ko_summary :: string where
  "ko_summary = [CHR 0xEC, CHR 0x9A, CHR 0x94, CHR 0xEC, CHR 0x95, CHR 0xBD]"

text \<open>diagnosis table, row 3, column 2; code points U+CDE8 U+C57D U+C810 U+0020 U+C810 U+AC80
  U+0020 U+0033 U+AC74\<close>

definition ko_three_checks :: string where
  "ko_three_checks = [CHR 0xEC, CHR 0xB7, CHR 0xA8, CHR 0xEC, CHR 0x95, CHR 0xBD, CHR 0xEC,
     CHR 0xA0, CHR 0x90, CHR 0x20, CHR 0xEC, CHR 0xA0, CHR 0x90, CHR 0xEA, CHR 0xB2,
     CHR 0x80, CHR 0x20, CHR 0x33, CHR 0xEA, CHR 0xB1, CHR 0xB4]"

text \<open>column 3 of the third row of both tables; code points U+C608 U+C2DC\<close>

definition ko_example :: string where
  "ko_example = [CHR 0xEC, CHR 0x98, CHR 0x88, CHR 0xEC, CHR 0x8B, CHR 0x9C]"

text \<open>action text, between the diagnosis name and the action name; code points U+C5D0 U+0020
  U+B300 U+D55C U+0020\<close>

definition ko_about :: string where
  "ko_about = [CHR 0xEC, CHR 0x97, CHR 0x90, CHR 0x20, CHR 0xEB, CHR 0x8C, CHR 0x80,
     CHR 0xED, CHR 0x95, CHR 0x9C, CHR 0x20]"

text \<open>the rest of an action text, after the action name; code points U+0020 U+B354 U+BBF8
  U+0020 U+C2E4 U+D589 U+0020 U+ACB0 U+ACFC U+C785 U+B2C8 U+B2E4 U+002E\<close>

definition ko_action_text_tail :: string where
  "ko_action_text_tail = [CHR 0x20, CHR 0xEB, CHR 0x8D, CHR 0x94, CHR 0xEB, CHR 0xAF,
     CHR 0xB8, CHR 0x20, CHR 0xEC, CHR 0x8B, CHR 0xA4, CHR 0xED, CHR 0x96, CHR 0x89,
     CHR 0x20, CHR 0xEA, CHR 0xB2, CHR 0xB0, CHR 0xEA, CHR 0xB3, CHR 0xBC, CHR 0xEC,
     CHR 0x9E, CHR 0x85, CHR 0xEB, CHR 0x8B, CHR 0x88, CHR 0xEB, CHR 0x8B, CHR 0xA4,
     CHR 0x2E]"

text \<open>action table, row 1, column 1; code points U+C870 U+CE58 U+B300 U+C0C1\<close>

definition ko_action_target :: string where
  "ko_action_target = [CHR 0xEC, CHR 0xA1, CHR 0xB0, CHR 0xEC, CHR 0xB9, CHR 0x98, CHR 0xEB,
     CHR 0x8C, CHR 0x80, CHR 0xEC, CHR 0x83, CHR 0x81]"

text \<open>action table, row 2, column 1; code points U+C870 U+CE58 U+ACB0 U+ACFC\<close>

definition ko_action_result :: string where
  "ko_action_result = [CHR 0xEC, CHR 0xA1, CHR 0xB0, CHR 0xEC, CHR 0xB9, CHR 0x98, CHR 0xEA,
     CHR 0xB2, CHR 0xB0, CHR 0xEA, CHR 0xB3, CHR 0xBC]"

text \<open>action table, row 2, column 2; code points U+C131 U+ACF5\<close>

definition ko_success :: string where
  "ko_success = [CHR 0xEC, CHR 0x84, CHR 0xB1, CHR 0xEA, CHR 0xB3, CHR 0xB5]"

text \<open>action table, row 3, column 1; code points U+BE44 U+ACE0\<close>

definition ko_note :: string where
  "ko_note = [CHR 0xEB, CHR 0xB9, CHR 0x84, CHR 0xEA, CHR 0xB3, CHR 0xA0]"

text \<open>the log text shown for a date node; code points U+B0A0 U+C9DC U+0020 U+B178 U+B4DC
  U+C785 U+B2C8 U+B2E4 U+002E U+0020 U+D558 U+C704 U+0020 U+C9C4 U+B2E8 U+002F U+C870
  U+CE58 U+0020 U+D56D U+BAA9 U+C744 U+0020 U+C120 U+D0DD U+D558 U+C138 U+C694 U+002E\<close>

definition ko_date_node_msg :: string where
  "ko_date_node_msg = [CHR 0xEB, CHR 0x82, CHR 0xA0, CHR 0xEC, CHR 0xA7, CHR 0x9C, CHR 0x20,
     CHR 0xEB, CHR 0x85, CHR 0xB8, CHR 0xEB, CHR 0x93, CHR 0x9C, CHR 0xEC, CHR 0x9E,
     CHR 0x85, CHR 0xEB, CHR 0x8B, CHR 0x88, CHR 0xEB, CHR 0x8B, CHR 0xA4, CHR 0x2E,
     CHR 0x20, CHR 0xED, CHR 0x95, CHR 0x98, CHR 0xEC, CHR 0x9C, CHR 0x84, CHR 0x20,
     CHR 0xEC, CHR 0xA7, CHR 0x84, CHR 0xEB, CHR 0x8B, CHR 0xA8, CHR 0x2F, CHR 0xEC,
     CHR 0xA1, CHR 0xB0, CHR 0xEC, CHR 0xB9, CHR 0x98, CHR 0x20, CHR 0xED, CHR 0x95,
     CHR 0xAD, CHR 0xEB, CHR 0xAA, CHR 0xA9, CHR 0xEC, CHR 0x9D, CHR 0x84, CHR 0x20,
     CHR 0xEC, CHR 0x84, CHR 0xA0, CHR 0xED, CHR 0x83, CHR 0x9D, CHR 0xED, CHR 0x95,
     CHR 0x98, CHR 0xEC, CHR 0x84, CHR 0xB8, CHR 0xEC, CHR 0x9A, CHR 0x94, CHR 0x2E]"

text \<open>export, label of the title line; code points U+C81C U+BAA9 U+003A U+0020\<close>

definition ko_title_label :: string where
  "ko_title_label = [CHR 0xEC, CHR 0xA0, CHR 0x9C, CHR 0xEB, CHR 0xAA, CHR 0xA9, CHR 0x3A,
     CHR 0x20]"

text \<open>export, label of the kind line; code points U+C885 U+B958 U+003A U+0020\<close>

definition ko_kind_label :: string where
  "ko_kind_label = [CHR 0xEC, CHR 0xA2, CHR 0x85, CHR 0xEB, CHR 0xA5, CHR 0x98, CHR 0x3A,
     CHR 0x20]"

text \<open>export, label of the creation time line; code points U+C0DD U+C131 U+C2DC U+AC01 U+003A
  U+0020\<close>

definition ko_created_label :: string where
  "ko_created_label = [CHR 0xEC, CHR 0x83, CHR 0x9D, CHR 0xEC, CHR 0x84, CHR 0xB1, CHR 0xEC,
     CHR 0x8B, CHR 0x9C, CHR 0xEA, CHR 0xB0, CHR 0x81, CHR 0x3A, CHR 0x20]"

text \<open>export, header of the summary; code points U+005B U+C694 U+C57D U+005D\<close>

definition ko_summary_header :: string where
  "ko_summary_header = [CHR 0x5B, CHR 0xEC, CHR 0x9A, CHR 0x94, CHR 0xEC, CHR 0x95,
     CHR 0xBD, CHR 0x5D]"

text \<open>export, header of the table; code points U+005B U+D45C U+0020 U+B370 U+C774 U+D130
  U+005D\<close>

definition ko_table_header :: string where
  "ko_table_header = [CHR 0x5B, CHR 0xED, CHR 0x91, CHR 0x9C, CHR 0x20, CHR 0xEB, CHR 0x8D,
     CHR 0xB0, CHR 0xEC, CHR 0x9D, CHR 0xB4, CHR 0xED, CHR 0x84, CHR 0xB0, CHR 0x5D]"



section \<open>Data\<close>

text \<open>
  A payload is the dictionary stored on a tree item under \<open>Qt.UserRole\<close>. Its keys are those
  the program writes; every read goes through \<open>.get\<close>, so a key may be absent (\<open>None\<close>).
  A diagnosis payload carries \<open>action_seq\<close>, an action payload does not. The key \<open>"text"\<close>
  is the field \<open>text_body\<close>.
\<close>

record payload =
  kind :: "string option"
  created_at_full :: "string option"
  created_time :: "string option"
  title :: "string option"
  text_body :: "string option"
  table :: "string list list option"
  action_seq :: "int option"

text \<open>
  A \<open>QTreeWidgetItem\<close>: the text of column 0, the data of column 0 (a date node has none),
  the parent, the children in order, and the expanded flag. Items are objects shared between
  the tree, \<open>date_roots\<close> and the current selection, so they live in a store and are
  referred to by their index in it.
\<close>

type_synonym item_ref = nat

record tree_item =
  item_text :: string
  item_data :: "payload option"
  item_parent :: "item_ref option"
  item_children :: "item_ref list"
  item_expanded :: bool

text \<open>
  The state of \<open>MainWindow\<close> that the handlers read and write: the item store, the top-level
  items and the current item of \<open>record_tree\<close>, the two dictionaries, and the text of
  \<open>log_view\<close>.
\<close>

record main_window =
  items :: "tree_item list"
  top_level_items :: "item_ref list"
  current_item :: "item_ref option"
  date_roots :: "string \<rightharpoonup> item_ref"
  diag_seq_by_date :: "string \<rightharpoonup> int"
  log_view :: string

text \<open>The three strings of \<open>_now()\<close>: date, time, date and time.\<close>

type_synonym clock = "string \<times> string \<times> string"

text \<open>
  The two warnings of \<open>create_action_record\<close>, each followed by \<open>return\<close>: "select a
  diagnosis or one of its actions first" (lines 259-261) and "the diagnosis payload was not
  found" (lines 264-266).
\<close>

datatype error = NoSelectionError | PayloadMissingError

section \<open>The toolkit's item operations\<close>

definition new_item :: "string \<Rightarrow> tree_item" where
  "new_item txt =
     \<lparr>item_text = txt, item_data = None, item_parent = None, item_children = [],
      item_expanded = False\<rparr>"

definition alloc_item :: "tree_item \<Rightarrow> main_window \<Rightarrow> item_ref \<times> main_window" where
  "alloc_item it w = (length (items w), w\<lparr>items := items w @ [it]\<rparr>)"

definition update_item :: "item_ref \<Rightarrow> (tree_item \<Rightarrow> tree_item) \<Rightarrow> main_window \<Rightarrow> main_window" where
  "update_item i f w = w\<lparr>items := (items w)[i := f (items w ! i)]\<rparr>"

definition setData :: "item_ref \<Rightarrow> payload \<Rightarrow> main_window \<Rightarrow> main_window" where
  "setData i p w = update_item i (\<lambda>it. it\<lparr>item_data := Some p\<rparr>) w"

text \<open>\<open>addChild\<close> appends; the toolkit ignores a child that already has a parent.\<close>

definition addChild :: "item_ref \<Rightarrow> item_ref \<Rightarrow> main_window \<Rightarrow> main_window" where
  "addChild parent child w =
     (if item_parent (items w ! child) = None then
        update_item child (\<lambda>it. it\<lparr>item_parent := Some parent\<rparr>)
          (update_item parent (\<lambda>it. it\<lparr>item_children := item_children it @ [child]\<rparr>) w)
      else w)"

definition setExpanded :: "item_ref \<Rightarrow> bool \<Rightarrow> main_window \<Rightarrow> main_window" where
  "setExpanded i b w = update_item i (\<lambda>it. it\<lparr>item_expanded := b\<rparr>) w"

definition addTopLevelItem :: "item_ref \<Rightarrow> main_window \<Rightarrow> main_window" where
  "addTopLevelItem i w = w\<lparr>top_level_items := top_level_items w @ [i]\<rparr>"

definition setCurrentItem :: "item_ref \<Rightarrow> main_window \<Rightarrow> main_window" where
  "setCurrentItem i w = w\<lparr>current_item := Some i\<rparr>"

text \<open>\<open>d.setdefault(k, v)\<close>\<close>

definition setdefault :: "('k \<rightharpoonup> 'v) \<Rightarrow> 'k \<Rightarrow> 'v \<Rightarrow> ('k \<rightharpoonup> 'v)" where
  "setdefault m k v = (case m k of None \<Rightarrow> m(k \<mapsto> v) | Some _ \<Rightarrow> m)"

section \<open>MainWindow\<close>

definition init_window :: main_window where
  "init_window =
     \<lparr>items = [], top_level_items = [], current_item = None, date_roots = Map.empty,
      diag_seq_by_date = Map.empty, log_view = []\<rparr>"

definition on_tree_item_clicked :: "item_ref \<Rightarrow> main_window \<Rightarrow> main_window" where
  "on_tree_item_clicked item w =
     (case item_data (items w ! item) of
        None \<Rightarrow> w\<lparr>log_view := ko_date_node_msg\<rparr>
      | Some payload \<Rightarrow>
          w\<lparr>log_view := ''['' @ dict_get (created_time payload) [] @ '']'' @ [CHR 0x0A]
                 @ dict_get (text_body payload) []\<rparr>)"

text \<open>
  \<open>_ensure_date_root\<close>: the item of the date, made and registered when the date is new.
  The value returned is \<open>date_roots[date_str]\<close>, which after the \<open>if\<close> is the old entry or
  the item just stored.
\<close>

definition ensure_date_root :: "string \<Rightarrow> main_window \<Rightarrow> item_ref \<times> main_window" where
  "ensure_date_root date_str w =
     (case date_roots w date_str of
        None \<Rightarrow>
          (let (date_item, w1) = alloc_item (new_item date_str) w;
               w2 = addTopLevelItem date_item w1;
               w3 = w2\<lparr>date_roots := (date_roots w2)(date_str \<mapsto> date_item)\<rparr>;
               w4 = w3\<lparr>diag_seq_by_date := setdefault (diag_seq_by_date w3) date_str 0\<rparr>
           in (date_item, w4))
      | Some date_item \<Rightarrow> (date_item, w))"

definition diag_name_of :: "int \<Rightarrow> string" where
  "diag_name_of seq = ko_diag @ str_int seq"

definition diagnosis_payload :: "clock \<Rightarrow> string \<Rightarrow> payload" where
  "diagnosis_payload now diag_name =
     (case now of (date_str, time_str, full_str) \<Rightarrow>
        \<lparr>kind = Some ''diagnosis'',
         created_at_full = Some full_str,
         created_time = Some time_str,
         title = Some (date_str @ '' '' @ diag_name @ '' '' @ ko_report),
         text_body = Some (diag_name @ ko_diag_text_tail),
         table = Some [[ko_target, ko_server_a, ko_dummy],
                       [ko_status, ko_checked, ''placeholder''],
                       [ko_summary, ko_three_checks, ko_example]],
         action_seq = Some 0\<rparr>)"

definition create_diagnosis_record :: "clock \<Rightarrow> main_window \<Rightarrow> main_window" where
  "create_diagnosis_record now w =
     (case now of (date_str, time_str, full_str) \<Rightarrow>
        (let (date_item, w1) = ensure_date_root date_str w;
             seq = dict_get (diag_seq_by_date w1 date_str) 0 + 1;
             w2 = w1\<lparr>diag_seq_by_date := (diag_seq_by_date w1)(date_str \<mapsto> seq)\<rparr>;
             diag_name = diag_name_of seq;
             payload = diagnosis_payload now diag_name;
             (diag_item, w3) = alloc_item (new_item diag_name) w2;
             w4 = setData diag_item payload w3;
             w5 = addChild date_item diag_item w4;
             w6 = setExpanded date_item True w5;
             w7 = setCurrentItem diag_item w6
         in on_tree_item_clicked diag_item w7))"

text \<open>
  \<open>_resolve_selected_diagnosis\<close>. An item object counts as true in \<open>if not selected\<close> and
  \<open>if parent\<close>, so these two tests ask whether there is an item.
\<close>

definition resolve_selected_diagnosis :: "main_window \<Rightarrow> item_ref option" where
  "resolve_selected_diagnosis w =
     (case current_item w of
        None \<Rightarrow> None
      | Some selected \<Rightarrow>
          (case item_data (items w ! selected) of
             None \<Rightarrow> None
           | Some payload \<Rightarrow>
               if kind payload = Some ''diagnosis'' then Some selected
               else if kind payload = Some ''action'' then
                 (case item_parent (items w ! selected) of
                    Some parent \<Rightarrow> Some parent
                  | None \<Rightarrow> None)
               else None))"

definition action_name_of :: "int \<Rightarrow> string" where
  "action_name_of seq = ko_action @ str_int seq"

definition action_payload_of :: "clock \<Rightarrow> string \<Rightarrow> string \<Rightarrow> payload" where
  "action_payload_of now diag_text action_name =
     (case now of (date_str, time_str, full_str) \<Rightarrow>
        \<lparr>kind = Some ''action'',
         created_at_full = Some full_str,
         created_time = Some time_str,
         title = Some (date_str @ '' '' @ diag_text @ '' - '' @ action_name @ '' '' @ ko_report),
         text_body = Some (diag_text @ ko_about @ action_name @ ko_action_text_tail),
         table = Some [[ko_action_target, diag_text, ko_dummy],
                       [ko_action_result, ko_success, ''placeholder''],
                       [ko_note, action_name, ko_example]],
         action_seq = None\<rparr>)"

text \<open>
  \<open>create_action_record\<close>: the result is the warning shown, or the new action item; the
  window comes back with it, unchanged on both warnings since they return before any write.
\<close>

definition create_action_record :: "clock \<Rightarrow> main_window \<Rightarrow> (error + item_ref) \<times> main_window" where
  "create_action_record now w =
     (case resolve_selected_diagnosis w of
        None \<Rightarrow> (Inl NoSelectionError, w)
      | Some diag_item \<Rightarrow>
          (case item_data (items w ! diag_item) of
             None \<Rightarrow> (Inl PayloadMissingError, w)
           | Some diag_payload \<Rightarrow>
               (let next_seq = dict_get (action_seq diag_payload) 0 + 1;
                    diag_payload' = diag_payload\<lparr>action_seq := Some next_seq\<rparr>;
                    w1 = setData diag_item diag_payload' w;
                    action_name = action_name_of next_seq;
                    diag_text = item_text (items w1 ! diag_item);
                    payload = action_payload_of now diag_text action_name;
                    (action_item, w2) = alloc_item (new_item action_name) w1;
                    w3 = setData action_item payload w2;
                    w4 = addChild diag_item action_item w3;
                    w5 = setExpanded diag_item True w4;
                    w6 = setCurrentItem action_item w5
                in (Inr action_item, on_tree_item_clicked action_item w6))))"

text \<open>
  \<open>open_report_dialog\<close>: an information box when nothing or a date node is selected,
  otherwise the dialog opens on the payload of the current item. The window is only read.
\<close>

datatype report_info = SelectItemInfo | DateNodeInfo

definition open_report_dialog :: "main_window \<Rightarrow> report_info + payload" where
  "open_report_dialog w =
     (case current_item w of
        None \<Rightarrow> Inl SelectItemInfo
      | Some selected \<Rightarrow>
          (case item_data (items w ! selected) of
             None \<Rightarrow> Inl DateNodeInfo
           | Some payload \<Rightarrow> Inr payload))"

section \<open>ReportDialog\<close>

text \<open>
  The files of the machine, by path. The text is written through a file opened with
  \<open>encoding="utf-8"\<close>: the bytes stored are the UTF-8 encoding of the string, which is the
  string's representation here. The line feeds are stored as they are, as on a POSIX
  system; the translation of line ends that other platforms apply is not part of the
  program.
\<close>

type_synonym files = "string \<rightharpoonup> string"

text \<open>What the operating system does with the write: it succeeds, or raises \<open>OSError\<close>
  and leaves the files in some state of its own.\<close>

datatype os_write = WriteOk | WriteOSError files

datatype save_result = SaveCancelled | SaveDone string | SaveFailed

definition default_name :: "payload \<Rightarrow> string" where
  "default_name p = replace_space (dict_get (title p) ''report'') @ ''.txt''"

definition table_line :: "string list \<Rightarrow> string" where
  "table_line row =
     (let padded = row @ replicate (nat (max 0 (3 - int (length row)))) []
      in ''- '' @ padded ! 0 @ '' | '' @ padded ! 1 @ '' | '' @ padded ! 2)"

text \<open>The loop of lines 105-108, appending one line per row.\<close>

fun table_lines_loop :: "string list \<Rightarrow> string list list \<Rightarrow> string list" where
  "table_lines_loop acc [] = acc"
| "table_lines_loop acc (row # rows) = table_lines_loop (acc @ [table_line row]) rows"

definition report_body :: "payload \<Rightarrow> string list" where
  "report_body p =
     [ko_title_label @ dict_get (title p) [],
      ko_kind_label @ dict_get (kind p) [],
      ko_created_label @ dict_get (created_at_full p) [],
      [],
      ko_summary_header,
      dict_get (text_body p) [],
      [],
      ko_table_header]
     @ table_lines_loop [] (dict_get (table p) [])"

text \<open>
  \<open>_save_as_txt\<close>, given the path the file dialog returned (empty when the user cancels)
  and what the operating system does with the write.
\<close>

definition save_as_txt :: "payload \<Rightarrow> string \<Rightarrow> os_write \<Rightarrow> files \<Rightarrow> save_result \<times> files" where
  "save_as_txt p path os fs =
     (if path = [] then (SaveCancelled, fs)
      else
        (case os of
           WriteOk \<Rightarrow> (SaveDone path, fs(path \<mapsto> join [CHR 0x0A] (report_body p)))
         | WriteOSError fs' \<Rightarrow> (SaveFailed, fs')))"

section \<open>The user's events\<close>

text \<open>
  The signals of \<open>_connect_signals\<close>, and the view changing its current item. A click on an
  item of the tree makes it current, then \<open>itemClicked\<close> runs \<open>on_tree_item_clicked\<close>.
\<close>

datatype event =
    StartDiagClicked clock
  | RunActionClicked clock
  | ItemClicked item_ref
  | CurrentItemChanged "item_ref option"
  | ReportClicked

definition valid_ref :: "main_window \<Rightarrow> item_ref \<Rightarrow> bool" where
  "valid_ref w i = (i < length (items w))"

fun handle :: "main_window \<Rightarrow> event \<Rightarrow> main_window" where
  "handle w (StartDiagClicked now) = create_diagnosis_record now w"
| "handle w (RunActionClicked now) = snd (create_action_record now w)"
| "handle w (ItemClicked i) =
     (if valid_ref w i then on_tree_item_clicked i (setCurrentItem i w) else w)"
| "handle w (CurrentItemChanged None) = w\<lparr>current_item := None\<rparr>"
| "handle w (CurrentItemChanged (Some i)) = (if valid_ref w i then setCurrentItem i w else w)"
| "handle w ReportClicked = w"

definition run :: "event list \<Rightarrow> main_window" where
  "run evs = foldl handle init_window evs"

section \<open>Notions used in the statements and in the proofs\<close>

text \<open>Column \<open>i\<close> of a table row, empty when the row is too short.\<close>

definition column :: "string list \<Rightarrow> nat \<Rightarrow> string" where
  "column row i = (if i < length row then row ! i else [])"

text \<open>
  The store after a child is created under item \<open>g\<close>: \<open>g\<close> gets the data \<open>dnew\<close>, the new
  reference as its last child and the expanded flag; the child, with text \<open>txt\<close> and payload
  \<open>p\<close>, is the new last item of the store.
\<close>

definition attach ::
  "item_ref \<Rightarrow> payload option \<Rightarrow> string \<Rightarrow> payload \<Rightarrow> tree_item list \<Rightarrow> tree_item list" where
  "attach g dnew txt p xs =
     xs[g := (xs ! g)\<lparr>item_data := dnew,
                      item_children := item_children (xs ! g) @ [length xs],
                      item_expanded := True\<rparr>]
     @ [\<lparr>item_text = txt, item_data = Some p, item_parent = Some g, item_children = [],
         item_expanded = False\<rparr>]"

text \<open>The text \<open>on_tree_item_clicked\<close> puts in the log for an item with a payload.\<close>

definition entry_log :: "payload \<Rightarrow> string" where
  "entry_log p = ''['' @ dict_get (created_time p) [] @ '']'' @ [CHR 0x0A] @ dict_get (text_body p) []"

definition kind_of_data :: "payload option \<Rightarrow> string option" where
  "kind_of_data x = (case x of None \<Rightarrow> None | Some p \<Rightarrow> kind p)"

definition title_of_data :: "payload option \<Rightarrow> string option" where
  "title_of_data x = (case x of None \<Rightarrow> None | Some p \<Rightarrow> title p)"

text \<open>The data \<open>y\<close> is the data \<open>x\<close> but for the action counter.\<close>

definition same_but_counter :: "payload option \<Rightarrow> payload option \<Rightarrow> bool" where
  "same_but_counter x y =
     (case x of None \<Rightarrow> y = None | Some p \<Rightarrow> (\<exists>s. y = Some (p\<lparr>action_seq := s\<rparr>)))"

text \<open>The kind of the payload of item \<open>i\<close>; none for a date node and outside the store.\<close>

definition kind_at :: "tree_item list \<Rightarrow> item_ref \<Rightarrow> string option" where
  "kind_at xs i = (if i < length xs then kind_of_data (item_data (xs ! i)) else None)"

definition child_texts :: "tree_item list \<Rightarrow> item_ref \<Rightarrow> string list" where
  "child_texts xs g = map (\<lambda>c. item_text (xs ! c)) (item_children (xs ! g))"

definition child_titles :: "tree_item list \<Rightarrow> item_ref \<Rightarrow> string option list" where
  "child_titles xs g = map (\<lambda>c. title_of_data (item_data (xs ! c))) (item_children (xs ! g))"

text \<open>Children are listed in the order of their creation and point back to their parent.\<close>

definition backrefs_ok :: "tree_item list \<Rightarrow> bool" where
  "backrefs_ok xs =
     (\<forall>g<length xs. sorted_wrt (<) (item_children (xs ! g)) \<and>
        (\<forall>c\<in>set (item_children (xs ! g)). c < length xs \<and> item_parent (xs ! c) = Some g))"

text \<open>An action item hangs under a diagnosis item.\<close>

definition actions_ok :: "tree_item list \<Rightarrow> bool" where
  "actions_ok xs =
     (\<forall>i. kind_at xs i = Some ''action'' \<longrightarrow>
        (\<exists>g. item_parent (xs ! i) = Some g \<and> kind_at xs g = Some ''diagnosis''
             \<and> i \<in> set (item_children (xs ! g))))"

definition kinds_ok :: "tree_item list \<Rightarrow> bool" where
  "kinds_ok xs =
     (\<forall>i<length xs. \<forall>p. item_data (xs ! i) = Some p \<longrightarrow>
        kind p = Some ''diagnosis'' \<or> kind p = Some ''action'')"

text \<open>The current item, when there is one, is an item of the store.\<close>

definition cur_ok :: "main_window \<Rightarrow> bool" where
  "cur_ok w = (case current_item w of None \<Rightarrow> True | Some i \<Rightarrow> i < length (items w))"

text \<open>The item registered for a date is a top-level item without data that shows the date.\<close>

definition roots_ok :: "main_window \<Rightarrow> bool" where
  "roots_ok w =
     (\<forall>d r. date_roots w d = Some r \<longrightarrow>
        r < length (items w) \<and> item_data (items w ! r) = None \<and> item_text (items w ! r) = d
        \<and> r \<in> set (top_level_items w))"

text \<open>The event starts a diagnosis at a time whose date is \<open>d\<close>.\<close>

fun starts_diag_on :: "event \<Rightarrow> string \<Rightarrow> bool" where
  "starts_diag_on (StartDiagClicked now) d = (fst now = d)"
| "starts_diag_on _ d = False"

definition count_diags :: "event list \<Rightarrow> string \<Rightarrow> nat" where
  "count_diags evs d = length (filter (\<lambda>ev. starts_diag_on ev d) evs)"

text \<open>
  In window \<open>w\<close> the event runs an action whose scope resolves to item \<open>g\<close>, and the action is
  created.
\<close>

fun creates_action_under :: "main_window \<Rightarrow> event \<Rightarrow> item_ref \<Rightarrow> bool" where
  "creates_action_under w (RunActionClicked now) g =
     (resolve_selected_diagnosis w = Some g \<and> \<not> isl (fst (create_action_record now w)))"
| "creates_action_under w _ g = False"

text \<open>The number of actions created under \<open>g\<close> by the events \<open>evs\<close>, handled from \<open>w\<close> on.\<close>

fun count_actions :: "main_window \<Rightarrow> event list \<Rightarrow> item_ref \<Rightarrow> nat" where
  "count_actions w [] g = 0"
| "count_actions w (ev # evs) g =
     (if creates_action_under w ev g then 1 else 0) + count_actions (handle w ev) evs g"

text \<open>
  With \<open>cnt d\<close> diagnoses started on date \<open>d\<close>: the date has an item and a counter once a
  diagnosis was started on it, the counter is \<open>cnt d\<close>, and the children of the item are
  diagnoses named and titled by the numbers from 1 to \<open>cnt d\<close>, in this order.
\<close>

definition diag_count_ok :: "main_window \<Rightarrow> (string \<Rightarrow> nat) \<Rightarrow> bool" where
  "diag_count_ok w cnt =
     (\<forall>d. case date_roots w d of
            None \<Rightarrow> cnt d = 0 \<and> diag_seq_by_date w d = None
          | Some r \<Rightarrow>
              diag_seq_by_date w d = Some (int (cnt d))
              \<and> child_texts (items w) r = map (\<lambda>k. diag_name_of (int k)) [1..<Suc (cnt d)]
              \<and> child_titles (items w) r
                  = map (\<lambda>k. Some (d @ '' '' @ diag_name_of (int k) @ '' '' @ ko_report))
                      [1..<Suc (cnt d)]
              \<and> (\<forall>c\<in>set (item_children (items w ! r)). kind_at (items w) c = Some ''diagnosis''))"

text \<open>
  With \<open>cnt g\<close> actions created under item \<open>g\<close>: a diagnosis item has the counter \<open>cnt g\<close> and
  its children are actions named by the numbers from 1 to \<open>cnt g\<close>, in this order; no
  action was created under anything else.
\<close>

definition action_count_ok :: "tree_item list \<Rightarrow> (item_ref \<Rightarrow> nat) \<Rightarrow> bool" where
  "action_count_ok xs cnt =
     (\<forall>g. if kind_at xs g = Some ''diagnosis''
          then (case item_data (xs ! g) of
                  None \<Rightarrow> False
                | Some p \<Rightarrow> action_seq p = Some (int (cnt g)))
               \<and> child_texts xs g = map (\<lambda>k. action_name_of (int k)) [1..<Suc (cnt g)]
               \<and> (\<forall>c\<in>set (item_children (xs ! g)). kind_at xs c = Some ''action'')
          else cnt g = 0)"

definition base_inv :: "main_window \<Rightarrow> (string \<Rightarrow> nat) \<Rightarrow> (item_ref \<Rightarrow> nat) \<Rightarrow> bool" where
  "base_inv w cd ca =
     (cur_ok w \<and> roots_ok w \<and> backrefs_ok (items w) \<and> actions_ok (items w)
      \<and> kinds_ok (items w) \<and> diag_count_ok w cd \<and> action_count_ok (items w) ca)"

text \<open>The items of the store that list \<open>i\<close> among their children.\<close>

definition parents_of :: "tree_item list \<Rightarrow> item_ref \<Rightarrow> item_ref list" where
  "parents_of xs i = filter (\<lambda>g. i \<in> set (item_children (xs ! g))) [0..<length xs]"

section \<open>Numbers and their names\<close>

text \<open>Different numbers are written differently, so a name tells its number.\<close>

lemma digit_char_code: "n < 10 \<Longrightarrow> of_char (digit_char n) = 48 + n"
proof -
  assume "n < 10"
  then have "n \<in> {0, 1, 2, 3, 4, 5, 6, 7, 8, 9}"
    by auto
  then show ?thesis
    by (auto simp: digit_char_def)
qed

lemma digit_char_inj:
  assumes "a < 10" and "b < 10" and "digit_char a = digit_char b"
  shows "a = b"
proof -
  have "(of_char (digit_char a) :: nat) = of_char (digit_char b)"
    using assms(3) by simp
  with assms(1,2) show ?thesis
    by (simp add: digit_char_code)
qed

lemma digit_char_not_minus: "n < 10 \<Longrightarrow> digit_char n \<noteq> CHR ''-''"
proof
  assume n: "n < 10" and "digit_char n = CHR ''-''"
  then have "(of_char (digit_char n) :: nat) = of_char CHR ''-''"
    by simp
  with n show False
    by (simp add: digit_char_code)
qed

lemma str_nat_nonempty: "str_nat n \<noteq> []"
  by (subst str_nat.simps) simp

lemma str_nat_length_one: "length (str_nat n) = Suc 0 \<longleftrightarrow> n < 10"
proof (cases "n < 10")
  case True
  then show ?thesis by (subst str_nat.simps) simp
next
  case False
  have "str_nat (n div 10) \<noteq> []" by (rule str_nat_nonempty)
  then have "0 < length (str_nat (n div 10))" by simp
  with False show ?thesis by (subst str_nat.simps) simp
qed

lemma str_nat_inj: "str_nat a = str_nat b \<Longrightarrow> a = b"
proof (induction a arbitrary: b rule: str_nat.induct)
  case (1 a)
  show ?case
  proof (cases "a < 10")
    case True
    then have "length (str_nat a) = Suc 0" by (simp add: str_nat_length_one)
    with "1.prems" have b: "b < 10" by (simp add: str_nat_length_one)
    from True have "str_nat a = [digit_char a]" by (subst str_nat.simps) simp
    moreover from b have "str_nat b = [digit_char b]" by (subst str_nat.simps) simp
    ultimately show ?thesis
      using "1.prems" True b by (simp add: digit_char_inj)
  next
    case False
    then have "length (str_nat a) \<noteq> Suc 0" by (simp add: str_nat_length_one)
    with "1.prems" have b: "\<not> b < 10" by (simp add: str_nat_length_one)
    from False have ea: "str_nat a = str_nat (a div 10) @ [digit_char (a mod 10)]"
      by (subst str_nat.simps) simp
    from b have eb: "str_nat b = str_nat (b div 10) @ [digit_char (b mod 10)]"
      by (subst str_nat.simps) simp
    from "1.prems" ea eb have h: "str_nat (a div 10) = str_nat (b div 10)"
      and l: "digit_char (a mod 10) = digit_char (b mod 10)"
      by simp_all
    from "1.IH" [OF False h] have d: "a div 10 = b div 10" .
    from l have m: "a mod 10 = b mod 10"
      by (rule digit_char_inj [rotated 2]) simp_all
    from d m show ?thesis
      by (metis div_mult_mod_eq)
  qed
qed

lemma str_nat_hd_not_minus: "hd (str_nat n) \<noteq> CHR ''-''"
proof (induction n rule: str_nat.induct)
  case (1 n)
  show ?case
  proof (cases "n < 10")
    case True
    then have "str_nat n = [digit_char n]" by (subst str_nat.simps) simp
    with True show ?thesis by (simp add: digit_char_not_minus)
  next
    case False
    then have "str_nat n = str_nat (n div 10) @ [digit_char (n mod 10)]"
      by (subst str_nat.simps) simp
    with "1.IH" [OF False] show ?thesis
      by (simp add: str_nat_nonempty)
  qed
qed

lemma str_int_inj: "str_int a = str_int b \<Longrightarrow> a = b"
proof -
  assume e: "str_int a = str_int b"
  have neg: "hd (str_int i) = CHR ''-'' \<longleftrightarrow> i < 0" for i
    by (simp add: str_int_def str_nat_hd_not_minus)
  from e have s: "a < 0 \<longleftrightarrow> b < 0"
    using neg [of a] neg [of b] by simp
  show ?thesis
  proof (cases "a < 0")
    case True
    with s e have "str_nat (nat (- a)) = str_nat (nat (- b))"
      by (simp add: str_int_def)
    then have "nat (- a) = nat (- b)" by (rule str_nat_inj)
    with True s show ?thesis by simp
  next
    case False
    with s e have "str_nat (nat a) = str_nat (nat b)"
      by (simp add: str_int_def)
    then have "nat a = nat b" by (rule str_nat_inj)
    with False s show ?thesis by simp
  qed
qed

lemma diag_name_of_inj: "diag_name_of a = diag_name_of b \<Longrightarrow> a = b"
  by (simp add: diag_name_of_def str_int_inj)

lemma action_name_of_inj: "action_name_of a = action_name_of b \<Longrightarrow> a = b"
  by (simp add: action_name_of_def str_int_inj)

lemma distinct_diag_names: "distinct (map (\<lambda>k. diag_name_of (int k)) [1..<Suc n])"
  by (auto simp: distinct_map inj_on_def dest: diag_name_of_inj)

lemma distinct_action_names: "distinct (map (\<lambda>k. action_name_of (int k)) [1..<Suc n])"
  by (auto simp: distinct_map inj_on_def dest: action_name_of_inj)

section \<open>Invariants of the record tree\<close>

subsection \<open>Closed forms of the two creations\<close>

lemma ensure_date_root_new:
  assumes "date_roots w d = None"
  shows "ensure_date_root d w =
    (length (items w),
     w\<lparr>items := items w @ [new_item d],
       top_level_items := top_level_items w @ [length (items w)],
       date_roots := (date_roots w)(d \<mapsto> length (items w)),
       diag_seq_by_date := setdefault (diag_seq_by_date w) d 0\<rparr>)"
  using assms by (simp add: ensure_date_root_def alloc_item_def addTopLevelItem_def)

lemma ensure_date_root_old:
  assumes "date_roots w d = Some r"
  shows "ensure_date_root d w = (r, w)"
  using assms by (simp add: ensure_date_root_def)

lemma create_diagnosis_record_closed:
  assumes "ensure_date_root d w = (r, w1)" and "r < length (items w1)"
  shows "create_diagnosis_record (d, t, f) w =
    (let seq = dict_get (diag_seq_by_date w1 d) 0 + 1;
         p = diagnosis_payload (d, t, f) (diag_name_of seq)
     in w1\<lparr>items := attach r (item_data (items w1 ! r)) (diag_name_of seq) p (items w1),
           current_item := Some (length (items w1)),
           diag_seq_by_date := (diag_seq_by_date w1)(d \<mapsto> seq),
           log_view := entry_log p\<rparr>)"
  using assms
  by (simp add: create_diagnosis_record_def Let_def alloc_item_def setData_def addChild_def
      update_item_def setExpanded_def setCurrentItem_def on_tree_item_clicked_def new_item_def
      attach_def entry_log_def nth_append list_update_append)

lemma create_action_record_closed:
  assumes "resolve_selected_diagnosis w = Some g" and "g < length (items w)"
    and "item_data (items w ! g) = Some p"
  shows "create_action_record (d, t, f) w =
    (let seq = dict_get (action_seq p) 0 + 1;
         pa = action_payload_of (d, t, f) (item_text (items w ! g)) (action_name_of seq)
     in (Inr (length (items w)),
         w\<lparr>items := attach g (Some (p\<lparr>action_seq := Some seq\<rparr>)) (action_name_of seq) pa (items w),
           current_item := Some (length (items w)),
           log_view := entry_log pa\<rparr>))"
  using assms
  by (simp add: create_action_record_def Let_def alloc_item_def setData_def addChild_def
      update_item_def setExpanded_def setCurrentItem_def on_tree_item_clicked_def new_item_def
      attach_def entry_log_def nth_append list_update_append)

subsection \<open>The store after a creation\<close>

lemma attach_length [simp]: "length (attach g dnew txt p xs) = Suc (length xs)"
  by (simp add: attach_def)

lemma attach_nth_new:
  "attach g dnew txt p xs ! length xs =
     \<lparr>item_text = txt, item_data = Some p, item_parent = Some g, item_children = [],
      item_expanded = False\<rparr>"
  by (simp add: attach_def nth_append)

lemma attach_nth_parent:
  "g < length xs \<Longrightarrow>
   attach g dnew txt p xs ! g =
     (xs ! g)\<lparr>item_data := dnew,
              item_children := item_children (xs ! g) @ [length xs],
              item_expanded := True\<rparr>"
  by (simp add: attach_def nth_append)

lemma attach_nth_other:
  "i < length xs \<Longrightarrow> i \<noteq> g \<Longrightarrow> attach g dnew txt p xs ! i = xs ! i"
  by (simp add: attach_def nth_append)

lemma attach_text:
  "i < length xs \<Longrightarrow> item_text (attach g dnew txt p xs ! i) = item_text (xs ! i)"
  by (cases "i = g") (simp_all add: attach_nth_parent attach_nth_other)

lemma attach_parent:
  "i < length xs \<Longrightarrow> item_parent (attach g dnew txt p xs ! i) = item_parent (xs ! i)"
  by (cases "i = g") (simp_all add: attach_nth_parent attach_nth_other)

lemma attach_children:
  "i < length xs \<Longrightarrow>
   item_children (attach g dnew txt p xs ! i)
     = (if i = g then item_children (xs ! g) @ [length xs] else item_children (xs ! i))"
  by (cases "i = g") (simp_all add: attach_nth_parent attach_nth_other)

lemma attach_data:
  "i < length xs \<Longrightarrow>
   item_data (attach g dnew txt p xs ! i) = (if i = g then dnew else item_data (xs ! i))"
  by (cases "i = g") (simp_all add: attach_nth_parent attach_nth_other)

lemma same_but_counter_refl: "same_but_counter x x"
proof (cases x)
  case None
  then show ?thesis by (simp add: same_but_counter_def)
next
  case (Some p)
  have "p = p\<lparr>action_seq := action_seq p\<rparr>" by simp
  with Some show ?thesis
    unfolding same_but_counter_def by (simp only: option.case) blast
qed

lemma same_but_counter_kind: "same_but_counter x y \<Longrightarrow> kind_of_data y = kind_of_data x"
  by (auto simp: same_but_counter_def kind_of_data_def split: option.splits)

lemma same_but_counter_title: "same_but_counter x y \<Longrightarrow> title_of_data y = title_of_data x"
  by (auto simp: same_but_counter_def title_of_data_def split: option.splits)

lemma attach_kind_at:
  assumes "g < length xs" and "same_but_counter (item_data (xs ! g)) dnew"
  shows "kind_at (attach g dnew txt p xs) i = (if i = length xs then kind p else kind_at xs i)"
proof (cases "i < length xs")
  case True
  then show ?thesis
    using assms by (simp add: kind_at_def attach_data same_but_counter_kind)
next
  case False
  then show ?thesis
    by (cases "i = length xs") (simp_all add: kind_at_def attach_nth_new kind_of_data_def)
qed

lemma attach_title:
  assumes "i < length xs" and "same_but_counter (item_data (xs ! g)) dnew"
  shows "title_of_data (item_data (attach g dnew txt p xs ! i)) = title_of_data (item_data (xs ! i))"
  using assms by (simp add: attach_data same_but_counter_title)

lemma append_new_item_kind_at: "kind_at (xs @ [new_item d]) i = kind_at xs i"
  by (simp add: kind_at_def nth_append new_item_def kind_of_data_def)

lemma kind_at_Some_valid: "kind_at xs i = Some k \<Longrightarrow> i < length xs"
  by (simp add: kind_at_def split: if_splits)

subsection \<open>The invariants of the store are kept\<close>

lemma backrefs_ok_append_new_item:
  assumes "backrefs_ok xs"
  shows "backrefs_ok (xs @ [new_item d])"
  unfolding backrefs_ok_def
proof (intro allI impI)
  fix g assume g: "g < length (xs @ [new_item d])"
  show "sorted_wrt (<) (item_children ((xs @ [new_item d]) ! g)) \<and>
        (\<forall>c\<in>set (item_children ((xs @ [new_item d]) ! g)).
            c < length (xs @ [new_item d]) \<and> item_parent ((xs @ [new_item d]) ! c) = Some g)"
  proof (cases "g < length xs")
    case True
    from assms True have old: "sorted_wrt (<) (item_children (xs ! g))"
      "\<forall>c\<in>set (item_children (xs ! g)). c < length xs \<and> item_parent (xs ! c) = Some g"
      by (auto simp: backrefs_ok_def)
    with True show ?thesis
      by (auto simp: nth_append)
  next
    case False
    with g have "g = length xs" by simp
    then show ?thesis
      by (simp add: nth_append new_item_def)
  qed
qed

lemma backrefs_ok_attach:
  assumes "backrefs_ok xs" and "g < length xs"
  shows "backrefs_ok (attach g dnew txt p xs)"
  unfolding backrefs_ok_def
proof (intro allI impI)
  let ?ys = "attach g dnew txt p xs"
  fix h assume h: "h < length ?ys"
  show "sorted_wrt (<) (item_children (?ys ! h)) \<and>
        (\<forall>c\<in>set (item_children (?ys ! h)). c < length ?ys \<and> item_parent (?ys ! c) = Some h)"
  proof (cases "h < length xs")
    case False
    with h have "h = length xs" by simp
    then show ?thesis by (simp add: attach_nth_new)
  next
    case True
    from assms(1) True have old: "sorted_wrt (<) (item_children (xs ! h))"
      "\<forall>c\<in>set (item_children (xs ! h)). c < length xs \<and> item_parent (xs ! c) = Some h"
      by (auto simp: backrefs_ok_def)
    show ?thesis
    proof (cases "h = g")
      case False
      with True old show ?thesis
        by (auto simp: attach_children attach_parent)
    next
      case g: True
      have "sorted_wrt (<) (item_children (xs ! g) @ [length xs])"
        using old g by (auto simp: sorted_wrt_append)
      with True old g show ?thesis
        by (auto simp: attach_children attach_parent attach_nth_new)
    qed
  qed
qed

lemma actions_ok_append_new_item:
  assumes "actions_ok xs"
  shows "actions_ok (xs @ [new_item d])"
  unfolding actions_ok_def
proof (intro allI impI)
  fix i assume "kind_at (xs @ [new_item d]) i = Some ''action''"
  then have a: "kind_at xs i = Some ''action''"
    by (simp add: append_new_item_kind_at)
  then have i: "i < length xs"
    by (rule kind_at_Some_valid)
  from assms a obtain g where g: "item_parent (xs ! i) = Some g"
    "kind_at xs g = Some ''diagnosis''" "i \<in> set (item_children (xs ! g))"
    unfolding actions_ok_def by blast
  from g(2) have "g < length xs"
    by (rule kind_at_Some_valid)
  with i g show "\<exists>g. item_parent ((xs @ [new_item d]) ! i) = Some g
      \<and> kind_at (xs @ [new_item d]) g = Some ''diagnosis''
      \<and> i \<in> set (item_children ((xs @ [new_item d]) ! g))"
    by (auto simp: nth_append append_new_item_kind_at)
qed

lemma actions_ok_attach:
  assumes ok: "actions_ok xs" and g: "g < length xs"
    and upd: "same_but_counter (item_data (xs ! g)) dnew"
    and new: "kind p = Some ''action'' \<longrightarrow> kind_at xs g = Some ''diagnosis''"
  shows "actions_ok (attach g dnew txt p xs)"
  unfolding actions_ok_def
proof (intro allI impI)
  let ?ys = "attach g dnew txt p xs"
  note ka = attach_kind_at [OF g upd]
  fix i assume a: "kind_at ?ys i = Some ''action''"
  show "\<exists>h. item_parent (?ys ! i) = Some h \<and> kind_at ?ys h = Some ''diagnosis''
      \<and> i \<in> set (item_children (?ys ! h))"
  proof (cases "i = length xs")
    case True
    with a new have "kind_at xs g = Some ''diagnosis''"
      by (simp add: ka)
    with g True show ?thesis
      by (intro exI [of _ g]) (simp add: ka attach_nth_new attach_children)
  next
    case False
    with a have a': "kind_at xs i = Some ''action''"
      by (simp add: ka)
    then have i: "i < length xs"
      by (rule kind_at_Some_valid)
    from ok a' obtain h where h: "item_parent (xs ! i) = Some h"
      "kind_at xs h = Some ''diagnosis''" "i \<in> set (item_children (xs ! h))"
      unfolding actions_ok_def by blast
    from h(2) have hl: "h < length xs"
      by (rule kind_at_Some_valid)
    with i h show ?thesis
      by (intro exI [of _ h]) (auto simp: ka attach_parent attach_children)
  qed
qed

lemma kinds_ok_append_new_item:
  assumes "kinds_ok xs"
  shows "kinds_ok (xs @ [new_item d])"
  unfolding kinds_ok_def
proof (intro allI impI)
  fix i p assume i: "i < length (xs @ [new_item d])"
    and p: "item_data ((xs @ [new_item d]) ! i) = Some p"
  show "kind p = Some ''diagnosis'' \<or> kind p = Some ''action''"
  proof (cases "i < length xs")
    case True
    with assms p show ?thesis
      by (simp add: kinds_ok_def nth_append)
  next
    case False
    with i have "i = length xs" by simp
    with p show ?thesis
      by (simp add: new_item_def)
  qed
qed

lemma kinds_ok_attach:
  assumes ok: "kinds_ok xs" and g: "g < length xs"
    and upd: "same_but_counter (item_data (xs ! g)) dnew"
    and new: "kind p = Some ''diagnosis'' \<or> kind p = Some ''action''"
  shows "kinds_ok (attach g dnew txt p xs)"
  unfolding kinds_ok_def
proof (intro allI impI)
  let ?ys = "attach g dnew txt p xs"
  fix i q assume i: "i < length ?ys" and q: "item_data (?ys ! i) = Some q"
  show "kind q = Some ''diagnosis'' \<or> kind q = Some ''action''"
  proof (cases "i < length xs")
    case False
    with i have "i = length xs" by simp
    with q new show ?thesis
      by (simp add: attach_nth_new)
  next
    case True
    show ?thesis
    proof (cases "i = g")
      case False
      with True q ok show ?thesis
        by (simp add: attach_data kinds_ok_def)
    next
      case ig: True
      with True q have u: "dnew = Some q"
        by (simp add: attach_data)
      with upd obtain q0 where q0: "item_data (xs ! g) = Some q0" "kind q0 = kind q"
        by (cases "item_data (xs ! g)") (auto simp: same_but_counter_def)
      with ok g show ?thesis
        by (auto simp: kinds_ok_def)
    qed
  qed
qed

lemma child_texts_attach:
  assumes "backrefs_ok xs" and "h < length xs"
  shows "child_texts (attach g dnew txt p xs) h
     = (if h = g then child_texts xs g @ [txt] else child_texts xs h)"
proof -
  have c: "\<forall>c\<in>set (item_children (xs ! h)). c < length xs"
    using assms by (auto simp: backrefs_ok_def)
  then have "map (\<lambda>c. item_text (attach g dnew txt p xs ! c)) (item_children (xs ! h))
      = map (\<lambda>c. item_text (xs ! c)) (item_children (xs ! h))"
    by (simp add: attach_text)
  with assms(2) show ?thesis
    by (simp add: child_texts_def attach_children attach_nth_new)
qed

lemma child_titles_attach:
  assumes "backrefs_ok xs" and "h < length xs"
    and "same_but_counter (item_data (xs ! g)) dnew"
  shows "child_titles (attach g dnew txt p xs) h
     = (if h = g then child_titles xs g @ [title p] else child_titles xs h)"
proof -
  have c: "\<forall>c\<in>set (item_children (xs ! h)). c < length xs"
    using assms by (auto simp: backrefs_ok_def)
  then have "map (\<lambda>c. title_of_data (item_data (attach g dnew txt p xs ! c))) (item_children (xs ! h))
      = map (\<lambda>c. title_of_data (item_data (xs ! c))) (item_children (xs ! h))"
    using assms(3) by (simp add: attach_title)
  with assms(2) show ?thesis
    by (simp add: child_titles_def attach_children attach_nth_new title_of_data_def)
qed

lemma child_kinds_attach:
  assumes "backrefs_ok xs" and "h < length xs" and "g < length xs"
    and "same_but_counter (item_data (xs ! g)) dnew"
    and "\<forall>c\<in>set (item_children (xs ! h)). kind_at xs c = Some k"
    and "h = g \<longrightarrow> kind p = Some k"
  shows "\<forall>c\<in>set (item_children (attach g dnew txt p xs ! h)).
           kind_at (attach g dnew txt p xs) c = Some k"
proof
  fix c assume c: "c \<in> set (item_children (attach g dnew txt p xs ! h))"
  note ka = attach_kind_at [OF assms(3,4)]
  show "kind_at (attach g dnew txt p xs) c = Some k"
  proof (cases "c = length xs")
    case True
    have "\<forall>c\<in>set (item_children (xs ! h)). c < length xs"
      using assms(1,2) by (auto simp: backrefs_ok_def)
    with c True assms(2) have "h = g"
      by (auto simp: attach_children split: if_splits)
    with assms(6) True show ?thesis
      by (simp add: ka)
  next
    case False
    with c assms(2) have "c \<in> set (item_children (xs ! h))"
      by (auto simp: attach_children split: if_splits)
    with assms(5) False show ?thesis
      by (simp add: ka)
  qed
qed

lemma upt_from_1_Suc: "[1..<Suc (Suc n)] = [1..<Suc n] @ [Suc n]"
  by simp

lemma child_texts_append_new_item:
  assumes "backrefs_ok xs" and "h < length xs"
  shows "child_texts (xs @ [new_item d]) h = child_texts xs h"
proof -
  have "\<forall>c\<in>set (item_children (xs ! h)). c < length xs"
    using assms by (auto simp: backrefs_ok_def)
  with assms(2) show ?thesis
    by (simp add: child_texts_def nth_append)
qed

lemma child_titles_append_new_item:
  assumes "backrefs_ok xs" and "h < length xs"
  shows "child_titles (xs @ [new_item d]) h = child_titles xs h"
proof -
  have "\<forall>c\<in>set (item_children (xs ! h)). c < length xs"
    using assms by (auto simp: backrefs_ok_def)
  with assms(2) show ?thesis
    by (simp add: child_titles_def nth_append)
qed

lemma action_count_okD:
  assumes "action_count_ok xs ca" and "kind_at xs g = Some ''diagnosis''"
  shows "\<exists>p. item_data (xs ! g) = Some p \<and> action_seq p = Some (int (ca g))"
    and "child_texts xs g = map (\<lambda>k. action_name_of (int k)) [1..<Suc (ca g)]"
    and "\<forall>c\<in>set (item_children (xs ! g)). kind_at xs c = Some ''action''"
proof -
  from assms have a: "(case item_data (xs ! g) of None \<Rightarrow> False
      | Some p \<Rightarrow> action_seq p = Some (int (ca g)))
    \<and> child_texts xs g = map (\<lambda>k. action_name_of (int k)) [1..<Suc (ca g)]
    \<and> (\<forall>c\<in>set (item_children (xs ! g)). kind_at xs c = Some ''action'')"
    unfolding action_count_ok_def by (auto split: if_splits)
  then show "\<exists>p. item_data (xs ! g) = Some p \<and> action_seq p = Some (int (ca g))"
    by (cases "item_data (xs ! g)") simp_all
  from a show "child_texts xs g = map (\<lambda>k. action_name_of (int k)) [1..<Suc (ca g)]"
    by simp
  from a show "\<forall>c\<in>set (item_children (xs ! g)). kind_at xs c = Some ''action''"
    by simp
qed

lemma action_count_ok_zero:
  assumes "action_count_ok xs ca" and "kind_at xs g \<noteq> Some ''diagnosis''"
  shows "ca g = 0"
  using assms unfolding action_count_ok_def by (auto split: if_splits)

lemma action_count_okI:
  assumes "\<And>g. kind_at xs g = Some ''diagnosis'' \<Longrightarrow>
      (\<exists>p. item_data (xs ! g) = Some p \<and> action_seq p = Some (int (ca g)))
      \<and> child_texts xs g = map (\<lambda>k. action_name_of (int k)) [1..<Suc (ca g)]
      \<and> (\<forall>c\<in>set (item_children (xs ! g)). kind_at xs c = Some ''action'')"
    and "\<And>g. kind_at xs g \<noteq> Some ''diagnosis'' \<Longrightarrow> ca g = 0"
  shows "action_count_ok xs ca"
  unfolding action_count_ok_def
proof (intro allI)
  fix g
  show "if kind_at xs g = Some ''diagnosis''
        then (case item_data (xs ! g) of None \<Rightarrow> False
              | Some p \<Rightarrow> action_seq p = Some (int (ca g)))
             \<and> child_texts xs g = map (\<lambda>k. action_name_of (int k)) [1..<Suc (ca g)]
             \<and> (\<forall>c\<in>set (item_children (xs ! g)). kind_at xs c = Some ''action'')
        else ca g = 0"
  proof (cases "kind_at xs g = Some ''diagnosis''")
    case True
    from assms(1) [OF True] obtain p where "item_data (xs ! g) = Some p"
      "action_seq p = Some (int (ca g))"
      by blast
    with assms(1) [OF True] True show ?thesis
      by simp
  next
    case False
    with assms(2) show ?thesis by simp
  qed
qed

lemma action_count_ok_append_new_item:
  assumes ok: "action_count_ok xs ca" and br: "backrefs_ok xs"
  shows "action_count_ok (xs @ [new_item d]) ca"
proof (rule action_count_okI)
  fix g assume "kind_at (xs @ [new_item d]) g \<noteq> Some ''diagnosis''"
  then show "ca g = 0"
    using ok by (simp add: append_new_item_kind_at action_count_ok_zero)
next
  fix g assume "kind_at (xs @ [new_item d]) g = Some ''diagnosis''"
  then have k: "kind_at xs g = Some ''diagnosis''"
    by (simp add: append_new_item_kind_at)
  then have g: "g < length xs"
    by (rule kind_at_Some_valid)
  note old = action_count_okD [OF ok k]
  from g old show "(\<exists>p. item_data ((xs @ [new_item d]) ! g) = Some p \<and> action_seq p = Some (int (ca g)))
      \<and> child_texts (xs @ [new_item d]) g = map (\<lambda>k. action_name_of (int k)) [1..<Suc (ca g)]
      \<and> (\<forall>c\<in>set (item_children ((xs @ [new_item d]) ! g)). kind_at (xs @ [new_item d]) c = Some ''action'')"
    by (simp add: nth_append child_texts_append_new_item [OF br] append_new_item_kind_at)
qed

lemma action_count_ok_attach_diag:
  assumes ok: "action_count_ok xs ca" and br: "backrefs_ok xs" and g: "g < length xs"
    and same: "same_but_counter (item_data (xs ! g)) dnew"
    and root: "kind_at xs g \<noteq> Some ''diagnosis''"
    and p: "kind p = Some ''diagnosis''" "action_seq p = Some 0"
  shows "action_count_ok (attach g dnew txt p xs) ca"
proof (rule action_count_okI)
  let ?ys = "attach g dnew txt p xs"
  note ka = attach_kind_at [OF g same]
  have new0: "ca (length xs) = 0"
    by (rule action_count_ok_zero [OF ok]) (simp add: kind_at_def)
  {
    fix h assume "kind_at ?ys h \<noteq> Some ''diagnosis''"
    then show "ca h = 0"
      using ok p new0 by (cases "h = length xs") (simp_all add: ka action_count_ok_zero)
  next
    fix h assume h: "kind_at ?ys h = Some ''diagnosis''"
    show "(\<exists>q. item_data (?ys ! h) = Some q \<and> action_seq q = Some (int (ca h)))
      \<and> child_texts ?ys h = map (\<lambda>k. action_name_of (int k)) [1..<Suc (ca h)]
      \<and> (\<forall>c\<in>set (item_children (?ys ! h)). kind_at ?ys c = Some ''action'')"
    proof (cases "h = length xs")
      case True
      with p new0 show ?thesis
        by (simp add: attach_nth_new child_texts_def)
    next
      case False
      with h have k: "kind_at xs h = Some ''diagnosis''"
        by (simp add: ka)
      then have hl: "h < length xs"
        by (rule kind_at_Some_valid)
      from k root have hg: "h \<noteq> g"
        by auto
      note old = action_count_okD [OF ok k]
      have kids: "\<forall>c\<in>set (item_children (?ys ! h)). kind_at ?ys c = Some ''action''"
        using child_kinds_attach [OF br hl g same old(3)] hg by simp
      from hl hg old(1,2) kids show ?thesis
        by (simp add: attach_data child_texts_attach [OF br])
    qed
  }
qed

lemma action_count_ok_attach_action:
  assumes ok: "action_count_ok xs ca" and br: "backrefs_ok xs"
    and k: "kind_at xs g = Some ''diagnosis''"
    and p0: "item_data (xs ! g) = Some p0"
    and p: "kind p = Some ''action''"
    and seq: "seq = int (Suc (ca g))"
  shows "action_count_ok
     (attach g (Some (p0\<lparr>action_seq := Some seq\<rparr>)) (action_name_of seq) p xs)
     (ca(g := Suc (ca g)))"
proof (rule action_count_okI)
  let ?dnew = "Some (p0\<lparr>action_seq := Some seq\<rparr>)"
  let ?ys = "attach g ?dnew (action_name_of seq) p xs"
  let ?ca = "ca(g := Suc (ca g))"
  from k have g: "g < length xs"
    by (rule kind_at_Some_valid)
  have same: "same_but_counter (item_data (xs ! g)) ?dnew"
    unfolding same_but_counter_def p0 by (simp only: option.case) blast
  note ka = attach_kind_at [OF g same]
  note oldg = action_count_okD [OF ok k]
  have new0: "ca (length xs) = 0"
    by (rule action_count_ok_zero [OF ok]) (simp add: kind_at_def)
  {
    fix h assume "kind_at ?ys h \<noteq> Some ''diagnosis''"
    then have "kind_at xs h \<noteq> Some ''diagnosis'' \<or> h = length xs"
      by (auto simp: ka split: if_splits)
    then have "ca h = 0" and "h \<noteq> g"
      using ok new0 k g by (auto simp: action_count_ok_zero)
    then show "?ca h = 0"
      by simp
  next
    fix h assume h: "kind_at ?ys h = Some ''diagnosis''"
    from h p have hn: "h \<noteq> length xs"
      by (auto simp: ka)
    with h have kh: "kind_at xs h = Some ''diagnosis''"
      by (simp add: ka)
    then have hl: "h < length xs"
      by (rule kind_at_Some_valid)
    note old = action_count_okD [OF ok kh]
    have kids: "\<forall>c\<in>set (item_children (?ys ! h)). kind_at ?ys c = Some ''action''"
      using child_kinds_attach [OF br hl g same old(3)] p by simp
    have data: "\<exists>q. item_data (?ys ! h) = Some q \<and> action_seq q = Some (int (?ca h))"
    proof (cases "h = g")
      case True
      with hl seq show ?thesis
        by (simp add: attach_data)
    next
      case False
      with hl old(1) show ?thesis
        by (simp add: attach_data)
    qed
    have texts: "child_texts ?ys h = map (\<lambda>k. action_name_of (int k)) [1..<Suc (?ca h)]"
    proof (cases "h = g")
      case True
      have ct: "child_texts ?ys g = child_texts xs g @ [action_name_of seq]"
        by (simp add: child_texts_attach [OF br g])
      have "child_texts ?ys g = map (\<lambda>k. action_name_of (int k)) [1..<Suc (Suc (ca g))]"
        by (subst ct) (simp only: oldg(2) seq upt_from_1_Suc map_append list.map)
      with True show ?thesis
        by simp
    next
      case False
      with hl old(2) show ?thesis
        by (simp add: child_texts_attach [OF br])
    qed
    from data texts kids
    show "(\<exists>q. item_data (?ys ! h) = Some q \<and> action_seq q = Some (int (?ca h)))
      \<and> child_texts ?ys h = map (\<lambda>k. action_name_of (int k)) [1..<Suc (?ca h)]
      \<and> (\<forall>c\<in>set (item_children (?ys ! h)). kind_at ?ys c = Some ''action'')"
      by (intro conjI)
  }
qed

lemma diag_count_okD_None:
  assumes "diag_count_ok w cd" and "date_roots w d = None"
  shows "cd d = 0" and "diag_seq_by_date w d = None"
  using assms(1) [unfolded diag_count_ok_def, rule_format, of d] assms(2) by simp_all

lemma diag_count_okD_Some:
  assumes "diag_count_ok w cd" and "date_roots w d = Some r"
  shows "diag_seq_by_date w d = Some (int (cd d))"
    and "child_texts (items w) r = map (\<lambda>k. diag_name_of (int k)) [1..<Suc (cd d)]"
    and "child_titles (items w) r
           = map (\<lambda>k. Some (d @ '' '' @ diag_name_of (int k) @ '' '' @ ko_report)) [1..<Suc (cd d)]"
    and "\<forall>c\<in>set (item_children (items w ! r)). kind_at (items w) c = Some ''diagnosis''"
  using assms(1) [unfolded diag_count_ok_def, rule_format, of d] assms(2) by simp_all

lemma diag_count_okI:
  assumes "\<And>d. date_roots w d = None \<Longrightarrow> cd d = 0 \<and> diag_seq_by_date w d = None"
    and "\<And>d r. date_roots w d = Some r \<Longrightarrow>
      diag_seq_by_date w d = Some (int (cd d))
      \<and> child_texts (items w) r = map (\<lambda>k. diag_name_of (int k)) [1..<Suc (cd d)]
      \<and> child_titles (items w) r
          = map (\<lambda>k. Some (d @ '' '' @ diag_name_of (int k) @ '' '' @ ko_report)) [1..<Suc (cd d)]
      \<and> (\<forall>c\<in>set (item_children (items w ! r)). kind_at (items w) c = Some ''diagnosis'')"
  shows "diag_count_ok w cd"
  unfolding diag_count_ok_def
proof
  fix d
  show "case date_roots w d of
      None \<Rightarrow> cd d = 0 \<and> diag_seq_by_date w d = None
    | Some r \<Rightarrow>
        diag_seq_by_date w d = Some (int (cd d))
        \<and> child_texts (items w) r = map (\<lambda>k. diag_name_of (int k)) [1..<Suc (cd d)]
        \<and> child_titles (items w) r
            = map (\<lambda>k. Some (d @ '' '' @ diag_name_of (int k) @ '' '' @ ko_report)) [1..<Suc (cd d)]
        \<and> (\<forall>c\<in>set (item_children (items w ! r)). kind_at (items w) c = Some ''diagnosis'')"
  proof (cases "date_roots w d")
    case None
    with assms(1) [OF None] show ?thesis by simp
  next
    case (Some r)
    with assms(2) [OF Some] show ?thesis by simp
  qed
qed

lemma roots_okD:
  assumes "roots_ok w" and "date_roots w d = Some r"
  shows "r < length (items w)" and "item_data (items w ! r) = None"
    and "item_text (items w ! r) = d" and "r \<in> set (top_level_items w)"
  using assms unfolding roots_ok_def by blast+

lemma root_kind_at:
  assumes "roots_ok w" and "date_roots w d = Some r"
  shows "kind_at (items w) r = None"
  using roots_okD [OF assms] by (simp add: kind_at_def kind_of_data_def)

text \<open>Registering a new date.\<close>

lemma base_inv_ensure_new:
  assumes inv: "base_inv w cd ca" and new: "date_roots w d = None"
  shows "base_inv
      (w\<lparr>items := items w @ [new_item d],
         top_level_items := top_level_items w @ [length (items w)],
         date_roots := (date_roots w)(d \<mapsto> length (items w)),
         diag_seq_by_date := setdefault (diag_seq_by_date w) d 0\<rparr>) cd ca"
    (is "base_inv ?w1 cd ca")
proof -
  let ?xs = "items w"
  from inv have cur: "cur_ok w" and roots: "roots_ok w" and br: "backrefs_ok ?xs"
    and act: "actions_ok ?xs" and kinds: "kinds_ok ?xs" and dc: "diag_count_ok w cd"
    and ac: "action_count_ok ?xs ca"
    unfolding base_inv_def by simp_all
  note none = diag_count_okD_None [OF dc new]
  have 1: "cur_ok ?w1"
    using cur by (auto simp: cur_ok_def split: option.splits)
  have 2: "roots_ok ?w1"
    unfolding roots_ok_def
  proof (intro allI impI)
    fix d' r assume a: "date_roots ?w1 d' = Some r"
    show "r < length (items ?w1) \<and> item_data (items ?w1 ! r) = None
        \<and> item_text (items ?w1 ! r) = d' \<and> r \<in> set (top_level_items ?w1)"
    proof (cases "d' = d")
      case True
      with a show ?thesis
        by (auto simp: new_item_def nth_append)
    next
      case False
      with a have "date_roots w d' = Some r" by simp
      from roots_okD [OF roots this] show ?thesis
        by (simp add: nth_append)
    qed
  qed
  have 6: "diag_count_ok ?w1 cd"
  proof (rule diag_count_okI)
    fix d' assume a: "date_roots ?w1 d' = None"
    then have d': "d' \<noteq> d" and old: "date_roots w d' = None"
      by (auto split: if_splits)
    from diag_count_okD_None [OF dc old] d'
    show "cd d' = 0 \<and> diag_seq_by_date ?w1 d' = None"
      by (simp add: setdefault_def none)
  next
    fix d' r assume a: "date_roots ?w1 d' = Some r"
    show "diag_seq_by_date ?w1 d' = Some (int (cd d'))
      \<and> child_texts (items ?w1) r = map (\<lambda>k. diag_name_of (int k)) [1..<Suc (cd d')]
      \<and> child_titles (items ?w1) r
          = map (\<lambda>k. Some (d' @ '' '' @ diag_name_of (int k) @ '' '' @ ko_report)) [1..<Suc (cd d')]
      \<and> (\<forall>c\<in>set (item_children (items ?w1 ! r)). kind_at (items ?w1) c = Some ''diagnosis'')"
    proof (cases "d' = d")
      case True
      with a have "r = length ?xs" by simp
      with True none show ?thesis
        by (simp add: setdefault_def child_texts_def child_titles_def new_item_def)
    next
      case False
      with a have old: "date_roots w d' = Some r" by simp
      note r = roots_okD(1) [OF roots old]
      from diag_count_okD_Some [OF dc old] False r show ?thesis
        by (simp add: setdefault_def none child_texts_append_new_item [OF br]
            child_titles_append_new_item [OF br] nth_append append_new_item_kind_at)
    qed
  qed
  show ?thesis
    unfolding base_inv_def
    using 1 2 6 backrefs_ok_append_new_item [OF br] actions_ok_append_new_item [OF act]
      kinds_ok_append_new_item [OF kinds] action_count_ok_append_new_item [OF ac br]
    by simp
qed

lemma diagnosis_payload_fields:
  "kind (diagnosis_payload (d, t, f) n) = Some ''diagnosis''"
  "action_seq (diagnosis_payload (d, t, f) n) = Some 0"
  "title (diagnosis_payload (d, t, f) n) = Some (d @ '' '' @ n @ '' '' @ ko_report)"
  by (simp_all add: diagnosis_payload_def)

lemma action_payload_fields:
  "kind (action_payload_of (d, t, f) g n) = Some ''action''"
  "title (action_payload_of (d, t, f) g n) = Some (d @ '' '' @ g @ '' - '' @ n @ '' '' @ ko_report)"
  by (simp_all add: action_payload_of_def)

text \<open>Adding a diagnosis under the item of its date.\<close>

lemma base_inv_add_diagnosis:
  assumes inv: "base_inv w cd ca" and root: "date_roots w d = Some r"
    and seq: "seq = int (Suc (cd d))"
    and p: "kind p = Some ''diagnosis''" "action_seq p = Some 0"
      "title p = Some (d @ '' '' @ diag_name_of seq @ '' '' @ ko_report)"
  shows "base_inv
      (w\<lparr>items := attach r (item_data (items w ! r)) (diag_name_of seq) p (items w),
         current_item := Some (length (items w)),
         diag_seq_by_date := (diag_seq_by_date w)(d \<mapsto> seq),
         log_view := l\<rparr>) (cd(d := Suc (cd d))) ca"
    (is "base_inv ?w' ?cd ca")
proof -
  let ?xs = "items w"
  let ?ys = "attach r (item_data (?xs ! r)) (diag_name_of seq) p ?xs"
  from inv have cur: "cur_ok w" and roots: "roots_ok w" and br: "backrefs_ok ?xs"
    and act: "actions_ok ?xs" and kinds: "kinds_ok ?xs" and dc: "diag_count_ok w cd"
    and ac: "action_count_ok ?xs ca"
    unfolding base_inv_def by simp_all
  note rr = roots_okD [OF roots root]
  have same: "same_but_counter (item_data (?xs ! r)) (item_data (?xs ! r))"
    by (rule same_but_counter_refl)
  have rk: "kind_at ?xs r \<noteq> Some ''diagnosis''"
    using root_kind_at [OF roots root] by simp
  have 1: "cur_ok ?w'"
    by (simp add: cur_ok_def)
  have 2: "roots_ok ?w'"
    unfolding roots_ok_def
  proof (intro allI impI)
    fix d' r' assume "date_roots ?w' d' = Some r'"
    then have old: "date_roots w d' = Some r'" by simp
    note o = roots_okD [OF roots old]
    from o rr(2) show "r' < length (items ?w') \<and> item_data (items ?w' ! r') = None
        \<and> item_text (items ?w' ! r') = d' \<and> r' \<in> set (top_level_items ?w')"
      by (simp add: attach_data attach_text)
  qed
  have 3: "backrefs_ok ?ys"
    by (rule backrefs_ok_attach [OF br rr(1)])
  have 4: "actions_ok ?ys"
    by (rule actions_ok_attach [OF act rr(1) same]) (simp add: p)
  have 5: "kinds_ok ?ys"
    by (rule kinds_ok_attach [OF kinds rr(1) same]) (simp add: p)
  have 7: "action_count_ok ?ys ca"
    by (rule action_count_ok_attach_diag [OF ac br rr(1) same rk p(1,2)])
  have 6: "diag_count_ok ?w' ?cd"
  proof (rule diag_count_okI)
    fix d' assume "date_roots ?w' d' = None"
    then have old: "date_roots w d' = None" by simp
    with root have "d' \<noteq> d" by auto
    with diag_count_okD_None [OF dc old]
    show "?cd d' = 0 \<and> diag_seq_by_date ?w' d' = None"
      by simp
  next
    fix d' r' assume "date_roots ?w' d' = Some r'"
    then have old: "date_roots w d' = Some r'" by simp
    note o = roots_okD [OF roots old]
    note c = diag_count_okD_Some [OF dc old]
    have kids: "\<forall>c\<in>set (item_children (?ys ! r')). kind_at ?ys c = Some ''diagnosis''"
      by (rule child_kinds_attach [OF br o(1) rr(1) same c(4)]) (simp add: p)
    have "diag_seq_by_date ?w' d' = Some (int (?cd d'))
      \<and> child_texts ?ys r' = map (\<lambda>k. diag_name_of (int k)) [1..<Suc (?cd d')]
      \<and> child_titles ?ys r'
          = map (\<lambda>k. Some (d' @ '' '' @ diag_name_of (int k) @ '' '' @ ko_report)) [1..<Suc (?cd d')]"
    proof (cases "d' = d")
      case True
      with old root have r': "r' = r" by simp
      have ct: "child_texts ?ys r = child_texts ?xs r @ [diag_name_of seq]"
        by (simp add: child_texts_attach [OF br rr(1)])
      have cti: "child_titles ?ys r
          = child_titles ?xs r @ [Some (d @ '' '' @ diag_name_of seq @ '' '' @ ko_report)]"
        by (simp add: child_titles_attach [OF br rr(1) same] p)
      have a: "child_texts ?ys r = map (\<lambda>k. diag_name_of (int k)) [1..<Suc (Suc (cd d))]"
        using c(2) unfolding True r'
        by (subst ct) (simp only: seq upt_from_1_Suc map_append list.map)
      have b: "child_titles ?ys r
          = map (\<lambda>k. Some (d @ '' '' @ diag_name_of (int k) @ '' '' @ ko_report))
              [1..<Suc (Suc (cd d))]"
        using c(3) unfolding True r'
        by (subst cti) (simp only: seq upt_from_1_Suc map_append list.map)
      from a b True r' seq show ?thesis
        by simp
    next
      case False
      with o(3) rr(3) have "r' \<noteq> r" by auto
      with False c(1,2,3) o(1) show ?thesis
        by (simp add: child_texts_attach [OF br] child_titles_attach [OF br o(1) same])
    qed
    with kids
    show "diag_seq_by_date ?w' d' = Some (int (?cd d'))
      \<and> child_texts (items ?w') r' = map (\<lambda>k. diag_name_of (int k)) [1..<Suc (?cd d')]
      \<and> child_titles (items ?w') r'
          = map (\<lambda>k. Some (d' @ '' '' @ diag_name_of (int k) @ '' '' @ ko_report)) [1..<Suc (?cd d')]
      \<and> (\<forall>c\<in>set (item_children (items ?w' ! r')). kind_at (items ?w') c = Some ''diagnosis'')"
      by simp
  qed
  show ?thesis
    unfolding base_inv_def using 1 2 3 4 5 6 7 by simp
qed

text \<open>The scope of a reachable window is a diagnosis item.\<close>

lemma resolve_is_diagnosis:
  assumes cur: "cur_ok w" and act: "actions_ok (items w)"
    and res: "resolve_selected_diagnosis w = Some g"
  shows "kind_at (items w) g = Some ''diagnosis''"
proof -
  from res obtain sel where sel: "current_item w = Some sel"
    by (auto simp: resolve_selected_diagnosis_def split: option.splits)
  with cur have len: "sel < length (items w)"
    by (simp add: cur_ok_def)
  from res sel obtain q where q: "item_data (items w ! sel) = Some q"
    by (auto simp: resolve_selected_diagnosis_def split: option.splits)
  show ?thesis
  proof (cases "kind q = Some ''diagnosis''")
    case True
    with res sel q len show ?thesis
      by (simp add: resolve_selected_diagnosis_def kind_at_def kind_of_data_def)
  next
    case False
    with res sel q have a: "kind q = Some ''action''" and par: "item_parent (items w ! sel) = Some g"
      by (auto simp: resolve_selected_diagnosis_def split: option.splits if_splits)
    from a q len have "kind_at (items w) sel = Some ''action''"
      by (simp add: kind_at_def kind_of_data_def)
    with act par show ?thesis
      unfolding actions_ok_def by fastforce
  qed
qed

text \<open>Adding an action under a diagnosis.\<close>

lemma base_inv_add_action:
  assumes inv: "base_inv w cd ca" and k: "kind_at (items w) g = Some ''diagnosis''"
    and p0: "item_data (items w ! g) = Some p0"
    and seq: "seq = int (Suc (ca g))"
    and p: "kind p = Some ''action''"
  shows "base_inv
      (w\<lparr>items := attach g (Some (p0\<lparr>action_seq := Some seq\<rparr>)) (action_name_of seq) p (items w),
         current_item := Some (length (items w)),
         log_view := l\<rparr>) cd (ca(g := Suc (ca g)))"
    (is "base_inv ?w' cd ?ca")
proof -
  let ?xs = "items w"
  let ?dnew = "Some (p0\<lparr>action_seq := Some seq\<rparr>)"
  let ?ys = "attach g ?dnew (action_name_of seq) p ?xs"
  from inv have cur: "cur_ok w" and roots: "roots_ok w" and br: "backrefs_ok ?xs"
    and act: "actions_ok ?xs" and kinds: "kinds_ok ?xs" and dc: "diag_count_ok w cd"
    and ac: "action_count_ok ?xs ca"
    unfolding base_inv_def by simp_all
  from k have g: "g < length ?xs"
    by (rule kind_at_Some_valid)
  have same: "same_but_counter (item_data (?xs ! g)) ?dnew"
    unfolding same_but_counter_def p0 by (simp only: option.case) blast
  have not_root: "r \<noteq> g" if "date_roots w d = Some r" for d r
    using root_kind_at [OF roots that] k by auto
  have 1: "cur_ok ?w'"
    by (simp add: cur_ok_def)
  have 2: "roots_ok ?w'"
    unfolding roots_ok_def
  proof (intro allI impI)
    fix d' r' assume "date_roots ?w' d' = Some r'"
    then have old: "date_roots w d' = Some r'" by simp
    note o = roots_okD [OF roots old]
    from o not_root [OF old]
    show "r' < length (items ?w') \<and> item_data (items ?w' ! r') = None
        \<and> item_text (items ?w' ! r') = d' \<and> r' \<in> set (top_level_items ?w')"
      by (simp add: attach_data attach_text)
  qed
  have 3: "backrefs_ok ?ys"
    by (rule backrefs_ok_attach [OF br g])
  have 4: "actions_ok ?ys"
    by (rule actions_ok_attach [OF act g same]) (simp add: k)
  have 5: "kinds_ok ?ys"
    by (rule kinds_ok_attach [OF kinds g same]) (simp add: p)
  have 7: "action_count_ok ?ys ?ca"
    by (rule action_count_ok_attach_action [OF ac br k p0 p seq])
  have 6: "diag_count_ok ?w' cd"
  proof (rule diag_count_okI)
    fix d' assume "date_roots ?w' d' = None"
    then have old: "date_roots w d' = None" by simp
    from diag_count_okD_None [OF dc old]
    show "cd d' = 0 \<and> diag_seq_by_date ?w' d' = None"
      by simp
  next
    fix d' r' assume "date_roots ?w' d' = Some r'"
    then have old: "date_roots w d' = Some r'" by simp
    note o = roots_okD [OF roots old]
    note c = diag_count_okD_Some [OF dc old]
    note ne = not_root [OF old]
    have kids: "\<forall>c\<in>set (item_children (?ys ! r')). kind_at ?ys c = Some ''diagnosis''"
      by (rule child_kinds_attach [OF br o(1) g same c(4)]) (simp add: ne)
    from c(1,2,3) ne kids
    show "diag_seq_by_date ?w' d' = Some (int (cd d'))
      \<and> child_texts (items ?w') r' = map (\<lambda>k. diag_name_of (int k)) [1..<Suc (cd d')]
      \<and> child_titles (items ?w') r'
          = map (\<lambda>k. Some (d' @ '' '' @ diag_name_of (int k) @ '' '' @ ko_report)) [1..<Suc (cd d')]
      \<and> (\<forall>c\<in>set (item_children (items ?w' ! r')). kind_at (items ?w') c = Some ''diagnosis'')"
      by (simp add: child_texts_attach [OF br o(1)] child_titles_attach [OF br o(1) same])
  qed
  show ?thesis
    unfolding base_inv_def using 1 2 3 4 5 6 7 by simp
qed

lemma base_inv_cong:
  assumes "base_inv w cd ca" and "items w' = items w" and "date_roots w' = date_roots w"
    and "diag_seq_by_date w' = diag_seq_by_date w"
    and "top_level_items w' = top_level_items w" and "cur_ok w'"
  shows "base_inv w' cd ca"
proof -
  have "roots_ok w' = roots_ok w"
    unfolding roots_ok_def by (simp only: assms(2-5))
  moreover have "diag_count_ok w' cd = diag_count_ok w cd"
    unfolding diag_count_ok_def by (simp only: assms(2-5))
  ultimately show ?thesis
    using assms(1,6) unfolding base_inv_def by (simp only: assms(2))
qed

lemma on_tree_item_clicked_fields:
  "items (on_tree_item_clicked i w) = items w"
  "date_roots (on_tree_item_clicked i w) = date_roots w"
  "diag_seq_by_date (on_tree_item_clicked i w) = diag_seq_by_date w"
  "top_level_items (on_tree_item_clicked i w) = top_level_items w"
  "current_item (on_tree_item_clicked i w) = current_item w"
  by (simp_all add: on_tree_item_clicked_def split: option.splits)

lemma ensure_date_root_inv:
  assumes "base_inv w cd ca"
  obtains r w1 where "ensure_date_root d w = (r, w1)" and "base_inv w1 cd ca"
    and "date_roots w1 d = Some r"
proof (cases "date_roots w d")
  case None
  show ?thesis
  proof (rule that)
    show "ensure_date_root d w =
      (length (items w),
       w\<lparr>items := items w @ [new_item d],
         top_level_items := top_level_items w @ [length (items w)],
         date_roots := (date_roots w)(d \<mapsto> length (items w)),
         diag_seq_by_date := setdefault (diag_seq_by_date w) d 0\<rparr>)"
      by (rule ensure_date_root_new [OF None])
  next
    show "base_inv
       (w\<lparr>items := items w @ [new_item d],
         top_level_items := top_level_items w @ [length (items w)],
         date_roots := (date_roots w)(d \<mapsto> length (items w)),
         diag_seq_by_date := setdefault (diag_seq_by_date w) d 0\<rparr>) cd ca"
      by (rule base_inv_ensure_new [OF assms None])
  qed simp
next
  case (Some r)
  from ensure_date_root_old [OF Some] assms Some show ?thesis
    by (rule that)
qed

lemma create_diagnosis_record_inv:
  assumes "base_inv w cd ca"
  shows "base_inv (create_diagnosis_record (d, t, f) w) (cd(d := Suc (cd d))) ca"
proof -
  from assms obtain r w1 where e: "ensure_date_root d w = (r, w1)"
    and inv1: "base_inv w1 cd ca" and root: "date_roots w1 d = Some r"
    by (rule ensure_date_root_inv)
  from inv1 have roots: "roots_ok w1" and dc: "diag_count_ok w1 cd"
    by (simp_all add: base_inv_def)
  note r = roots_okD(1) [OF roots root]
  have seq: "dict_get (diag_seq_by_date w1 d) 0 + 1 = int (Suc (cd d))"
    using diag_count_okD_Some(1) [OF dc root] by (simp add: dict_get_def)
  show ?thesis
    unfolding create_diagnosis_record_closed [OF e r] Let_def
    by (rule base_inv_add_diagnosis [OF inv1 root seq]) (rule diagnosis_payload_fields)+
qed

lemma create_action_record_inv:
  assumes inv: "base_inv w cd ca" and res: "resolve_selected_diagnosis w = Some g"
  shows "base_inv (snd (create_action_record (d, t, f) w)) cd (ca(g := Suc (ca g)))"
    and "fst (create_action_record (d, t, f) w) = Inr (length (items w))"
proof -
  from inv have cur: "cur_ok w" and act: "actions_ok (items w)"
    and ac: "action_count_ok (items w) ca"
    by (simp_all add: base_inv_def)
  note k = resolve_is_diagnosis [OF cur act res]
  then have g: "g < length (items w)"
    by (rule kind_at_Some_valid)
  from action_count_okD(1) [OF ac k] obtain p0 where p0: "item_data (items w ! g) = Some p0"
    and s0: "action_seq p0 = Some (int (ca g))"
    by blast
  have seq: "dict_get (action_seq p0) 0 + 1 = int (Suc (ca g))"
    using s0 by (simp add: dict_get_def)
  note closed = create_action_record_closed [OF res g p0, of d t f]
  show "fst (create_action_record (d, t, f) w) = Inr (length (items w))"
    by (simp add: closed Let_def)
  show "base_inv (snd (create_action_record (d, t, f) w)) cd (ca(g := Suc (ca g)))"
    unfolding closed Let_def snd_conv
    by (rule base_inv_add_action [OF inv k p0 seq]) (rule action_payload_fields)
qed

lemma handle_inv:
  assumes inv: "base_inv w cd ca"
  shows "base_inv (handle w ev)
     (\<lambda>d. cd d + (if starts_diag_on ev d then 1 else 0))
     (\<lambda>g. ca g + (if creates_action_under w ev g then 1 else 0))"
proof (cases ev)
  case (StartDiagClicked now)
  obtain d t f where now: "now = (d, t, f)"
    by (cases now) auto
  have "(\<lambda>d'. cd d' + (if starts_diag_on ev d' then 1 else 0)) = cd(d := Suc (cd d))"
    by (auto simp: StartDiagClicked now fun_eq_iff)
  moreover have "(\<lambda>g. ca g + (if creates_action_under w ev g then 1 else 0)) = ca"
    by (simp add: StartDiagClicked)
  ultimately show ?thesis
    using create_diagnosis_record_inv [OF inv, of d t f] by (simp add: StartDiagClicked now)
next
  case (RunActionClicked now)
  obtain d t f where now: "now = (d, t, f)"
    by (cases now) auto
  have cd: "(\<lambda>d'. cd d' + (if starts_diag_on ev d' then 1 else 0)) = cd"
    by (simp add: RunActionClicked)
  show ?thesis
  proof (cases "resolve_selected_diagnosis w")
    case None
    then have "(\<lambda>g. ca g + (if creates_action_under w ev g then 1 else 0)) = ca"
      by (simp add: RunActionClicked)
    moreover from None have "handle w ev = w"
      by (simp add: RunActionClicked create_action_record_def)
    ultimately show ?thesis
      using inv cd by simp
  next
    case (Some g)
    note c = create_action_record_inv [OF inv Some, of d t f]
    have "(\<lambda>g'. ca g' + (if creates_action_under w ev g' then 1 else 0)) = ca(g := Suc (ca g))"
      using c(2) Some by (auto simp: RunActionClicked now fun_eq_iff)
    with c(1) cd show ?thesis
      by (simp add: RunActionClicked now)
  qed
next
  case (ItemClicked i)
  have n: "(\<lambda>d'. cd d' + (if starts_diag_on ev d' then 1 else 0)) = cd"
    "(\<lambda>g. ca g + (if creates_action_under w ev g then 1 else 0)) = ca"
    by (simp_all add: ItemClicked)
  have "base_inv (handle w ev) cd ca"
  proof (cases "valid_ref w i")
    case True
    show ?thesis
      by (rule base_inv_cong [OF inv])
        (use True in \<open>simp_all add: ItemClicked on_tree_item_clicked_fields
          setCurrentItem_def cur_ok_def valid_ref_def\<close>)
  next
    case False
    with inv show ?thesis by (simp add: ItemClicked)
  qed
  with n show ?thesis by simp
next
  case (CurrentItemChanged c)
  have n: "(\<lambda>d'. cd d' + (if starts_diag_on ev d' then 1 else 0)) = cd"
    "(\<lambda>g. ca g + (if creates_action_under w ev g then 1 else 0)) = ca"
    by (simp_all add: CurrentItemChanged)
  have "base_inv (handle w ev) cd ca"
  proof (cases c)
    case None
    show ?thesis
      by (rule base_inv_cong [OF inv]) (simp_all add: CurrentItemChanged None cur_ok_def)
  next
    case (Some i)
    show ?thesis
    proof (cases "valid_ref w i")
      case True
      show ?thesis
        by (rule base_inv_cong [OF inv])
          (use True in \<open>simp_all add: CurrentItemChanged Some setCurrentItem_def cur_ok_def
            valid_ref_def\<close>)
    next
      case False
      with inv show ?thesis by (simp add: CurrentItemChanged Some)
    qed
  qed
  with n show ?thesis by simp
next
  case ReportClicked
  with inv show ?thesis by simp
qed

lemma run_snoc: "run (evs @ [ev]) = handle (run evs) ev"
  by (simp add: run_def)

lemma count_diags_snoc:
  "count_diags (evs @ [ev]) d = count_diags evs d + (if starts_diag_on ev d then 1 else 0)"
  by (simp add: count_diags_def)

lemma count_actions_snoc:
  "count_actions w (evs @ [ev]) g
     = count_actions w evs g + (if creates_action_under (foldl handle w evs) ev g then 1 else 0)"
  by (induction evs arbitrary: w) simp_all

lemma base_inv_init: "base_inv init_window (\<lambda>d. 0) (\<lambda>g. 0)"
  by (simp add: base_inv_def init_window_def cur_ok_def roots_ok_def backrefs_ok_def
      actions_ok_def kinds_ok_def diag_count_ok_def action_count_ok_def kind_at_def)

lemma run_inv: "base_inv (run evs) (count_diags evs) (count_actions init_window evs)"
proof (induction evs rule: rev_induct)
  case Nil
  have "count_diags [] = (\<lambda>d. 0)" "count_actions init_window [] = (\<lambda>g. 0)"
    by (simp_all add: fun_eq_iff count_diags_def)
  with base_inv_init show ?case
    by (simp add: run_def)
next
  case (snoc ev evs)
  have "count_diags (evs @ [ev]) = (\<lambda>d. count_diags evs d + (if starts_diag_on ev d then 1 else 0))"
    by (simp add: fun_eq_iff count_diags_snoc)
  moreover have "count_actions init_window (evs @ [ev])
      = (\<lambda>g. count_actions init_window evs g
              + (if creates_action_under (run evs) ev g then 1 else 0))"
    by (simp add: fun_eq_iff count_actions_snoc run_def)
  ultimately show ?case
    using handle_inv [OF snoc.IH, of ev] by (simp add: run_snoc)
qed

section \<open>The exported text\<close>

lemma table_lines_loop_eq: "table_lines_loop acc rows = acc @ map table_line rows"
  by (induction rows arbitrary: acc) simp_all

lemma padded_nth:
  "i < 3 \<Longrightarrow> (row @ replicate (nat (max 0 (3 - int (length row)))) []) ! i = column row i"
  by (auto simp: column_def nth_append)

lemma table_line_columns:
  "table_line row = ''- '' @ column row 0 @ '' | '' @ column row 1 @ '' | '' @ column row 2"
  by (simp add: table_line_def Let_def padded_nth)

lemma join_Cons: "join sep (x # xs) = x @ concat (map (\<lambda>y. sep @ y) xs)"
  by (induction xs arbitrary: x) simp_all

lemma join_append:
  "xs \<noteq> [] \<Longrightarrow> join sep (xs @ ys) = join sep xs @ concat (map (\<lambda>y. sep @ y) ys)"
  by (cases xs) (simp_all add: join_Cons)

lemma report_body_length: "length (report_body p) = 8 + length (dict_get (table p) [])"
  by (simp add: report_body_def table_lines_loop_eq)

lemma report_body_nth:
  "k < length (dict_get (table p) []) \<Longrightarrow>
   report_body p ! (8 + k) = table_line (dict_get (table p) [] ! k)"
  by (simp add: report_body_def table_lines_loop_eq nth_append)

text \<open>
  C6. When the file dialog returns a path and the write succeeds, the file at that path
  holds exactly: the title line, the kind line, the creation time line, an empty line, the
  summary header, the summary text, an empty line, the table header, and then one line
  \<open>- col1 | col2 | col3\<close> per table row, a missing column being empty and columns past the
  third dropped; the lines are separated by single line feeds, nothing follows the last
  one, and the bytes are the UTF-8 encoding of the text. The file name offered is the
  title with every space replaced by an underscore, followed by \<open>.txt\<close>. A key missing
  from the payload reads as the empty string in the text, and the title as \<open>report\<close> in
  the file name.
\<close>

theorem save_as_txt_layout:
  assumes "path \<noteq> []"
  shows "save_as_txt p path WriteOk fs =
     (SaveDone path,
      fs(path \<mapsto>
         ko_title_label @ dict_get (title p) [] @ [CHR 0x0A]
         @ ko_kind_label @ dict_get (kind p) [] @ [CHR 0x0A]
         @ ko_created_label @ dict_get (created_at_full p) [] @ [CHR 0x0A]
         @ [CHR 0x0A]
         @ ko_summary_header @ [CHR 0x0A]
         @ dict_get (text_body p) [] @ [CHR 0x0A]
         @ [CHR 0x0A]
         @ ko_table_header
         @ concat (map (\<lambda>row. [CHR 0x0A] @ ''- '' @ column row 0 @ '' | '' @ column row 1
                                @ '' | '' @ column row 2)
                    (dict_get (table p) []))))
    \<and> default_name p
        = map (\<lambda>c. if c = CHR '' '' then CHR ''_'' else c) (dict_get (title p) ''report'')
          @ ''.txt''"
  using assms
  by (simp add: save_as_txt_def report_body_def table_lines_loop_eq join_Cons
      table_line_columns default_name_def replace_space_def comp_def)

theorem save_as_txt_layout_witness:
  "snd (save_as_txt
         \<lparr>kind = Some ''action'', created_at_full = Some ''2024-01-01 10:00:00'',
          created_time = Some ''10:00:00'', title = Some ''a b'', text_body = Some ''s'',
          table = Some [[''x''], [''1'', ''2'', ''3'', ''4'']], action_seq = None\<rparr>
         ''out.txt'' WriteOk Map.empty) ''out.txt''
   = Some (ko_title_label @ ''a b'' @ [CHR 0x0A]
           @ ko_kind_label @ ''action'' @ [CHR 0x0A]
           @ ko_created_label @ ''2024-01-01 10:00:00'' @ [CHR 0x0A]
           @ [CHR 0x0A]
           @ ko_summary_header @ [CHR 0x0A]
           @ ''s'' @ [CHR 0x0A]
           @ [CHR 0x0A]
           @ ko_table_header @ [CHR 0x0A]
           @ ''- x |  | '' @ [CHR 0x0A]
           @ ''- 1 | 2 | 3'')
   \<and> default_name
        \<lparr>kind = Some ''action'', created_at_full = Some ''2024-01-01 10:00:00'',
         created_time = Some ''10:00:00'', title = Some ''a b'', text_body = Some ''s'',
         table = Some [[''x''], [''1'', ''2'', ''3'', ''4'']], action_seq = None\<rparr>
      = ''a_b.txt''"
proof -
  have path: "''out.txt'' \<noteq> []"
    by simp
  show ?thesis
    using save_as_txt_layout [OF path, of
        "\<lparr>kind = Some ''action'', created_at_full = Some ''2024-01-01 10:00:00'',
          created_time = Some ''10:00:00'', title = Some ''a b'', text_body = Some ''s'',
          table = Some [[''x''], [''1'', ''2'', ''3'', ''4'']], action_seq = None\<rparr>"
        Map.empty]
    by (simp add: dict_get_def column_def)
qed

text \<open>
  C8. A table row with exactly three columns \<open>a\<close>, \<open>b\<close>, \<open>c\<close>, at position \<open>k\<close> of the
  table, is line \<open>8 + k\<close> of the body, and that line is \<open>- a | b | c\<close> with the three values
  as they are; the body has one line per row after its eight leading lines, so the rows
  keep their order. In the exported text the line stands after the first \<open>8 + k\<close> lines
  and before the remaining ones.
\<close>

theorem three_column_rows_verbatim:
  assumes "path \<noteq> []"
    and "k < length (dict_get (table p) [])"
    and "dict_get (table p) [] ! k = [a, b, c]"
  shows "length (report_body p) = 8 + length (dict_get (table p) [])
    \<and> report_body p ! (8 + k) = ''- '' @ a @ '' | '' @ b @ '' | '' @ c
    \<and> snd (save_as_txt p path WriteOk fs) path =
        Some (join [CHR 0x0A] (take (8 + k) (report_body p))
              @ [CHR 0x0A] @ ''- '' @ a @ '' | '' @ b @ '' | '' @ c
              @ concat (map (\<lambda>l. [CHR 0x0A] @ l) (drop (9 + k) (report_body p))))"
proof -
  let ?body = "report_body p"
  have len: "8 + k < length ?body"
    using assms(2) by (simp add: report_body_length)
  have line: "?body ! (8 + k) = ''- '' @ a @ '' | '' @ b @ '' | '' @ c"
    using assms(2,3) by (simp add: report_body_nth table_line_columns column_def)
  have split: "?body = take (8 + k) ?body @ (?body ! (8 + k) # drop (9 + k) ?body)"
    using id_take_nth_drop [OF len] by simp
  have nonempty: "take (8 + k) ?body \<noteq> []"
    using len by auto
  have "join [CHR 0x0A] ?body
      = join [CHR 0x0A] (take (8 + k) ?body)
        @ concat (map (\<lambda>l. [CHR 0x0A] @ l) (?body ! (8 + k) # drop (9 + k) ?body))"
    using join_append [OF nonempty, of "[CHR 0x0A]" "?body ! (8 + k) # drop (9 + k) ?body"] split
    by simp
  then have "join [CHR 0x0A] ?body
      = join [CHR 0x0A] (take (8 + k) ?body)
        @ [CHR 0x0A] @ ''- '' @ a @ '' | '' @ b @ '' | '' @ c
        @ concat (map (\<lambda>l. [CHR 0x0A] @ l) (drop (9 + k) ?body))"
    by (simp add: line)
  then show ?thesis
    using assms(1) line by (simp add: save_as_txt_def report_body_length)
qed

theorem three_column_rows_verbatim_witness:
  "report_body
     \<lparr>kind = Some ''action'', created_at_full = Some ''2024-01-01 10:00:00'',
      created_time = Some ''10:00:00'', title = Some ''t'', text_body = Some ''s'',
      table = Some [[''x''], [''p | q'', [], ''r s'']], action_seq = None\<rparr> ! 9
   = ''- p | q |  | r s''"
proof -
  let ?p = "\<lparr>kind = Some ''action'', created_at_full = Some ''2024-01-01 10:00:00'',
      created_time = Some ''10:00:00'', title = Some ''t'', text_body = Some ''s'',
      table = Some [[''x''], [''p | q'', [], ''r s'']], action_seq = None\<rparr>"
  have path: "''out.txt'' \<noteq> []"
    by simp
  have k: "1 < length (dict_get (table ?p) [])"
    by (simp add: dict_get_def)
  have row: "dict_get (table ?p) [] ! 1 = [''p | q'', [], ''r s'']"
    by (simp add: dict_get_def)
  show ?thesis
    using three_column_rows_verbatim [OF path k row, of Map.empty] by simp
qed

section \<open>Creating an action without a diagnosis in scope\<close>

text \<open>
  C7. When the scope resolves to none, \<open>create_action_record\<close> shows the warning that asks
  for a selection and gives back the window as it was: no item, no payload and no counter
  changes. The scope resolves to none when no item is current and when the current item is
  a date node (an item without data).
\<close>

theorem create_action_without_scope:
  "(resolve_selected_diagnosis w = None \<longrightarrow>
      create_action_record now w = (Inl NoSelectionError, w)
      \<and> handle w (RunActionClicked now) = w)
   \<and> (current_item w = None \<longrightarrow> resolve_selected_diagnosis w = None)
   \<and> (\<forall>i. current_item w = Some i \<and> item_data (items w ! i) = None
          \<longrightarrow> resolve_selected_diagnosis w = None)"
  by (simp add: create_action_record_def resolve_selected_diagnosis_def)

theorem create_action_without_scope_witness:
  "current_item init_window = None
   \<and> create_action_record (''2024-01-01'', ''10:00:00'', ''2024-01-01 10:00:00'') init_window
       = (Inl NoSelectionError, init_window)
   \<and> current_item (run [StartDiagClicked (''2024-01-01'', ''10:00:00'', ''2024-01-01 10:00:00''),
                         ItemClicked 0]) = Some 0
   \<and> item_data (items (run [StartDiagClicked (''2024-01-01'', ''10:00:00'', ''2024-01-01 10:00:00''),
                              ItemClicked 0]) ! 0) = None
   \<and> create_action_record (''2024-01-01'', ''10:00:01'', ''2024-01-01 10:00:01'')
        (run [StartDiagClicked (''2024-01-01'', ''10:00:00'', ''2024-01-01 10:00:00''), ItemClicked 0])
       = (Inl NoSelectionError,
          run [StartDiagClicked (''2024-01-01'', ''10:00:00'', ''2024-01-01 10:00:00''), ItemClicked 0])"
proof -
  let ?c = "(''2024-01-01'', ''10:00:00'', ''2024-01-01 10:00:00'')"
  let ?w = "run [StartDiagClicked ?c, ItemClicked 0]"
  have a: "current_item init_window = None"
    by (simp add: init_window_def)
  have b: "current_item ?w = Some 0"
    by code_simp
  have c: "item_data (items ?w ! 0) = None"
    by code_simp
  note t1 = create_action_without_scope [of init_window ?c]
  note t2 = create_action_without_scope
      [of ?w "(''2024-01-01'', ''10:00:01'', ''2024-01-01 10:00:01'')"]
  have r1: "resolve_selected_diagnosis init_window = None"
    by (rule mp [OF conjunct1 [OF conjunct2 [OF t1]] a])
  have e1: "create_action_record ?c init_window = (Inl NoSelectionError, init_window)"
    by (rule conjunct1 [OF mp [OF conjunct1 [OF t1] r1]])
  have r2: "resolve_selected_diagnosis ?w = None"
    by (rule mp [OF spec [OF conjunct2 [OF conjunct2 [OF t2]], of 0] conjI [OF b c]])
  have e2: "create_action_record (''2024-01-01'', ''10:00:01'', ''2024-01-01 10:00:01'') ?w
      = (Inl NoSelectionError, ?w)"
    by (rule conjunct1 [OF mp [OF conjunct1 [OF t2] r2]])
  show ?thesis
    by (intro conjI a e1 b c e2)
qed

section \<open>The record tree after any events\<close>

lemma run_invD:
  shows "cur_ok (run evs)" and "roots_ok (run evs)" and "backrefs_ok (items (run evs))"
    and "actions_ok (items (run evs))" and "kinds_ok (items (run evs))"
    and "diag_count_ok (run evs) (count_diags evs)"
    and "action_count_ok (items (run evs)) (count_actions init_window evs)"
  using run_inv [of evs] by (simp_all add: base_inv_def)

lemma date_roots_create_diagnosis_record:
  "date_roots (create_diagnosis_record (d, t, f) w) d' = None
     \<longleftrightarrow> date_roots w d' = None \<and> d' \<noteq> d"
  by (auto simp: create_diagnosis_record_def ensure_date_root_def Let_def alloc_item_def
      setData_def addChild_def update_item_def setExpanded_def setCurrentItem_def
      on_tree_item_clicked_def addTopLevelItem_def split: option.splits)

lemma date_roots_create_action_record:
  "date_roots (snd (create_action_record now w)) = date_roots w"
  by (auto simp: create_action_record_def Let_def alloc_item_def
      setData_def addChild_def update_item_def setExpanded_def setCurrentItem_def
      on_tree_item_clicked_def split: option.splits)

lemma date_roots_handle:
  "date_roots (handle w ev) d = None \<longleftrightarrow> date_roots w d = None \<and> \<not> starts_diag_on ev d"
proof (cases ev)
  case (StartDiagClicked now)
  obtain d0 t f where "now = (d0, t, f)" by (cases now) auto
  with StartDiagClicked show ?thesis
    by (auto simp: date_roots_create_diagnosis_record)
next
  case (RunActionClicked now)
  then show ?thesis by (simp add: date_roots_create_action_record)
next
  case (ItemClicked i)
  then show ?thesis by (simp add: on_tree_item_clicked_fields setCurrentItem_def)
next
  case (CurrentItemChanged c)
  then show ?thesis by (cases c) (simp_all add: setCurrentItem_def)
next
  case ReportClicked
  then show ?thesis by simp
qed

lemma date_roots_run: "date_roots (run evs) d = None \<longleftrightarrow> count_diags evs d = 0"
proof (induction evs rule: rev_induct)
  case Nil
  show ?case by (simp add: run_def init_window_def count_diags_def)
next
  case (snoc ev evs)
  then show ?case
    by (simp add: run_snoc date_roots_handle count_diags_snoc)
qed

text \<open>
  C1. After any events, for every date \<open>d\<close>: with \<open>n\<close> the number of diagnoses started on
  \<open>d\<close>, the date has no item as long as \<open>n = 0\<close>; once a diagnosis was started on it, it has
  one top-level item showing \<open>d\<close>, the counter of the date is \<open>n\<close>, and the children of the
  item are named by the numbers \<open>1, ..., n\<close> in this order, which is the order of their
  creation (references grow with each creation); the names differ from each other.
\<close>

theorem diagnosis_numbers_per_date:
  "case date_roots (run evs) d of
     None \<Rightarrow> count_diags evs d = 0
   | Some r \<Rightarrow>
       0 < count_diags evs d
       \<and> r < length (items (run evs))
       \<and> r \<in> set (top_level_items (run evs))
       \<and> item_text (items (run evs) ! r) = d
       \<and> diag_seq_by_date (run evs) d = Some (int (count_diags evs d))
       \<and> child_texts (items (run evs)) r
           = map (\<lambda>k. diag_name_of (int k)) [1..<Suc (count_diags evs d)]
       \<and> distinct (child_texts (items (run evs)) r)
       \<and> sorted_wrt (<) (item_children (items (run evs) ! r))"
proof (cases "date_roots (run evs) d")
  case None
  with date_roots_run [of evs d] show ?thesis
    by simp
next
  case (Some r)
  note inv = run_invD [of evs]
  note ro = roots_okD [OF inv(2) Some]
  note dc = diag_count_okD_Some [OF inv(6) Some]
  from Some date_roots_run [of evs d] have pos: "0 < count_diags evs d"
    by simp
  from inv(3) ro(1) have "sorted_wrt (<) (item_children (items (run evs) ! r))"
    by (simp add: backrefs_ok_def)
  moreover have "distinct (child_texts (items (run evs)) r)"
    unfolding dc(2) by (rule distinct_diag_names)
  ultimately show ?thesis
    using Some ro dc(1,2) pos by simp
qed

theorem diagnosis_numbers_per_date_witness:
  "date_roots (run [StartDiagClicked (''2024-01-01'', ''10:00:00'', ''2024-01-01 10:00:00''),
                    StartDiagClicked (''2024-01-01'', ''10:00:05'', ''2024-01-01 10:00:05'')])
     ''2024-01-01'' = Some 0
   \<and> diag_seq_by_date
        (run [StartDiagClicked (''2024-01-01'', ''10:00:00'', ''2024-01-01 10:00:00''),
              StartDiagClicked (''2024-01-01'', ''10:00:05'', ''2024-01-01 10:00:05'')])
        ''2024-01-01'' = Some 2
   \<and> child_texts
        (items (run [StartDiagClicked (''2024-01-01'', ''10:00:00'', ''2024-01-01 10:00:00''),
                     StartDiagClicked (''2024-01-01'', ''10:00:05'', ''2024-01-01 10:00:05'')])) 0
      = [diag_name_of 1, diag_name_of 2]"
proof -
  let ?evs = "[StartDiagClicked (''2024-01-01'', ''10:00:00'', ''2024-01-01 10:00:00''),
               StartDiagClicked (''2024-01-01'', ''10:00:05'', ''2024-01-01 10:00:05'')]"
  have root: "date_roots (run ?evs) ''2024-01-01'' = Some 0"
    by code_simp
  have cnt: "count_diags ?evs ''2024-01-01'' = 2"
    by code_simp
  have upt: "[1..<Suc 2] = [1, 2]"
    by code_simp
  note t = diagnosis_numbers_per_date [of ?evs "''2024-01-01''", unfolded root option.case cnt upt]
  from t have a: "diag_seq_by_date (run ?evs) ''2024-01-01'' = Some 2"
    by simp
  from t have b: "child_texts (items (run ?evs)) 0 = [diag_name_of 1, diag_name_of 2]"
    by simp
  show ?thesis
    by (intro conjI root a b)
qed

text \<open>
  C2. After any events, for every diagnosis item \<open>g\<close>: with \<open>m\<close> the number of actions
  created under \<open>g\<close>, the counter of \<open>g\<close> is \<open>m\<close> and the children of \<open>g\<close> are named by the
  numbers \<open>1, ..., m\<close> in the order of their creation, by names that differ from each
  other. The number \<open>m\<close> moves only with an
  event that creates an action under \<open>g\<close> itself: starting a diagnosis, and creating an
  action under another diagnosis, leave it as it is.
\<close>

theorem action_numbers_per_diagnosis:
  "(if kind_at (items (run evs)) g = Some ''diagnosis''
    then (\<exists>p. item_data (items (run evs) ! g) = Some p
              \<and> action_seq p = Some (int (count_actions init_window evs g)))
         \<and> child_texts (items (run evs)) g
             = map (\<lambda>k. action_name_of (int k)) [1..<Suc (count_actions init_window evs g)]
         \<and> distinct (child_texts (items (run evs)) g)
         \<and> sorted_wrt (<) (item_children (items (run evs) ! g))
    else count_actions init_window evs g = 0)
   \<and> count_actions init_window (evs @ [ev]) g
       = count_actions init_window evs g + (if creates_action_under (run evs) ev g then 1 else 0)"
proof -
  note inv = run_invD [of evs]
  have step: "count_actions init_window (evs @ [ev]) g
       = count_actions init_window evs g + (if creates_action_under (run evs) ev g then 1 else 0)"
    by (simp add: count_actions_snoc run_def)
  show ?thesis
  proof (cases "kind_at (items (run evs)) g = Some ''diagnosis''")
    case True
    note ac = action_count_okD [OF inv(7) True]
    from True have "g < length (items (run evs))"
      by (rule kind_at_Some_valid)
    with inv(3) have "sorted_wrt (<) (item_children (items (run evs) ! g))"
      by (simp add: backrefs_ok_def)
    moreover have "distinct (child_texts (items (run evs)) g)"
      unfolding ac(2) by (rule distinct_action_names)
    ultimately show ?thesis
      using True ac(1,2) step by simp
  next
    case False
    with action_count_ok_zero [OF inv(7) False] step show ?thesis
      by simp
  qed
qed

theorem action_numbers_per_diagnosis_witness:
  "kind_at (items (run [StartDiagClicked (''2024-01-01'', ''10:00:00'', ''2024-01-01 10:00:00''),
                        RunActionClicked (''2024-01-01'', ''10:00:05'', ''2024-01-01 10:00:05''),
                        RunActionClicked (''2024-01-01'', ''10:00:09'', ''2024-01-01 10:00:09'')])) 1
     = Some ''diagnosis''
   \<and> child_texts
        (items (run [StartDiagClicked (''2024-01-01'', ''10:00:00'', ''2024-01-01 10:00:00''),
                     RunActionClicked (''2024-01-01'', ''10:00:05'', ''2024-01-01 10:00:05''),
                     RunActionClicked (''2024-01-01'', ''10:00:09'', ''2024-01-01 10:00:09'')])) 1
      = [action_name_of 1, action_name_of 2]"
proof -
  let ?evs = "[StartDiagClicked (''2024-01-01'', ''10:00:00'', ''2024-01-01 10:00:00''),
               RunActionClicked (''2024-01-01'', ''10:00:05'', ''2024-01-01 10:00:05''),
               RunActionClicked (''2024-01-01'', ''10:00:09'', ''2024-01-01 10:00:09'')]"
  have k: "kind_at (items (run ?evs)) 1 = Some ''diagnosis''"
    by code_simp
  have cnt: "count_actions init_window ?evs 1 = 2"
    by code_simp
  have upt: "[1..<Suc 2] = [1, 2]"
    by code_simp
  note t = conjunct1 [OF action_numbers_per_diagnosis [of ?evs 1],
      unfolded k if_True cnt upt]
  from t have b: "child_texts (items (run ?evs)) 1 = [action_name_of 1, action_name_of 2]"
    by simp
  show ?thesis
    by (intro conjI k b)
qed

lemma filter_eq_upt: "g < n \<Longrightarrow> filter (\<lambda>h. h = g) [0..<n] = [g]"
proof (induction n)
  case 0
  then show ?case by simp
next
  case (Suc n)
  show ?case
  proof (cases "g = n")
    case True
    have "filter (\<lambda>h. h = n) [0..<n] = []"
      by (simp add: filter_empty_conv)
    with True show ?thesis by simp
  next
    case False
    with Suc show ?thesis by simp
  qed
qed

lemma parents_of_unique:
  assumes br: "backrefs_ok xs" and g: "g < length xs"
    and i: "i \<in> set (item_children (xs ! g))"
  shows "parents_of xs i = [g]"
proof -
  have "filter (\<lambda>h. i \<in> set (item_children (xs ! h))) [0..<length xs]
      = filter (\<lambda>h. h = g) [0..<length xs]"
  proof (rule filter_cong [OF refl])
    fix h assume "h \<in> set [0..<length xs]"
    then have h: "h < length xs" by simp
    show "(i \<in> set (item_children (xs ! h))) = (h = g)"
    proof
      assume "i \<in> set (item_children (xs ! h))"
      with br h have "item_parent (xs ! i) = Some h"
        by (auto simp: backrefs_ok_def)
      moreover from br g i have "item_parent (xs ! i) = Some g"
        by (auto simp: backrefs_ok_def)
      ultimately show "h = g" by simp
    next
      assume "h = g"
      with i show "i \<in> set (item_children (xs ! h))" by simp
    qed
  qed
  with g show ?thesis
    by (simp add: parents_of_def filter_eq_upt)
qed

text \<open>
  C3. After any events: with no current item the scope is none; with a date node current
  the scope is none; with a diagnosis current the scope is that item; with an action
  current the scope is the one item that lists the action among its children, and that
  item is a diagnosis. A current item with a payload is a diagnosis or an action.
\<close>

theorem resolve_selected_diagnosis_scope:
  "case current_item (run evs) of
     None \<Rightarrow> resolve_selected_diagnosis (run evs) = None
   | Some i \<Rightarrow>
       i < length (items (run evs))
       \<and> (case item_data (items (run evs) ! i) of
            None \<Rightarrow> resolve_selected_diagnosis (run evs) = None
          | Some p \<Rightarrow>
              (kind p = Some ''diagnosis'' \<and> resolve_selected_diagnosis (run evs) = Some i)
              \<or> (kind p = Some ''action''
                  \<and> (\<exists>g. resolve_selected_diagnosis (run evs) = Some g
                         \<and> parents_of (items (run evs)) i = [g]
                         \<and> kind_at (items (run evs)) g = Some ''diagnosis'')))"
proof (cases "current_item (run evs)")
  case None
  then show ?thesis
    by (simp add: resolve_selected_diagnosis_def)
next
  case (Some i)
  note inv = run_invD [of evs]
  from inv(1) Some have i: "i < length (items (run evs))"
    by (simp add: cur_ok_def)
  show ?thesis
  proof (cases "item_data (items (run evs) ! i)")
    case None
    with Some i show ?thesis
      by (simp add: resolve_selected_diagnosis_def)
  next
    case p: (Some p)
    from inv(5) i p have "kind p = Some ''diagnosis'' \<or> kind p = Some ''action''"
      by (simp add: kinds_ok_def)
    then show ?thesis
    proof
      assume "kind p = Some ''diagnosis''"
      with Some i p show ?thesis
        by (simp add: resolve_selected_diagnosis_def)
    next
      assume a: "kind p = Some ''action''"
      with i p have "kind_at (items (run evs)) i = Some ''action''"
        by (simp add: kind_at_def kind_of_data_def)
      with inv(4) obtain g where g: "item_parent (items (run evs) ! i) = Some g"
        "kind_at (items (run evs)) g = Some ''diagnosis''"
        "i \<in> set (item_children (items (run evs) ! g))"
        unfolding actions_ok_def by blast
      from g(2) have gl: "g < length (items (run evs))"
        by (rule kind_at_Some_valid)
      have res: "resolve_selected_diagnosis (run evs) = Some g"
        using Some p a g(1) by (simp add: resolve_selected_diagnosis_def)
      from res parents_of_unique [OF inv(3) gl g(3)] g(2) a Some i p show ?thesis
        by simp
    qed
  qed
qed

theorem resolve_selected_diagnosis_scope_witness:
  "current_item (run [StartDiagClicked (''2024-01-01'', ''10:00:00'', ''2024-01-01 10:00:00''),
                     RunActionClicked (''2024-01-01'', ''10:00:05'', ''2024-01-01 10:00:05'')]) = Some 2
   \<and> kind_at (items (run [StartDiagClicked (''2024-01-01'', ''10:00:00'', ''2024-01-01 10:00:00''),
                           RunActionClicked (''2024-01-01'', ''10:00:05'', ''2024-01-01 10:00:05'')])) 2
      = Some ''action''
   \<and> resolve_selected_diagnosis
        (run [StartDiagClicked (''2024-01-01'', ''10:00:00'', ''2024-01-01 10:00:00''),
              RunActionClicked (''2024-01-01'', ''10:00:05'', ''2024-01-01 10:00:05'')]) = Some 1
   \<and> parents_of
        (items (run [StartDiagClicked (''2024-01-01'', ''10:00:00'', ''2024-01-01 10:00:00''),
                     RunActionClicked (''2024-01-01'', ''10:00:05'', ''2024-01-01 10:00:05'')])) 2
      = [1]"
proof -
  let ?w = "run [StartDiagClicked (''2024-01-01'', ''10:00:00'', ''2024-01-01 10:00:00''),
                 RunActionClicked (''2024-01-01'', ''10:00:05'', ''2024-01-01 10:00:05'')]"
  have cur: "current_item ?w = Some 2"
    by code_simp
  have k: "kind_at (items ?w) 2 = Some ''action''"
    by code_simp
  have kd: "kind_of_data (item_data (items ?w ! 2)) = Some ''action''"
    by code_simp
  have res: "resolve_selected_diagnosis ?w = Some 1"
    by code_simp
  note t = resolve_selected_diagnosis_scope
    [of "[StartDiagClicked (''2024-01-01'', ''10:00:00'', ''2024-01-01 10:00:00''),
          RunActionClicked (''2024-01-01'', ''10:00:05'', ''2024-01-01 10:00:05'')]",
      unfolded cur option.case res]
  from t kd have par: "parents_of (items ?w) 2 = [1]"
    by (auto simp: kind_of_data_def split: option.splits)
  show ?thesis
    by (intro conjI cur k res par)
qed

lemma create_diagnosis_record_reach:
  assumes inv: "base_inv w cd ca"
  obtains r xs1 where "r < length xs1"
    and "xs1 = items w \<or> xs1 = items w @ [new_item d]"
    and "items (create_diagnosis_record (d, t, f) w)
          = attach r (item_data (xs1 ! r)) (diag_name_of (int (Suc (cd d))))
              (diagnosis_payload (d, t, f) (diag_name_of (int (Suc (cd d))))) xs1"
    and "current_item (create_diagnosis_record (d, t, f) w) = Some (length xs1)"
proof -
  from inv obtain r w1 where e: "ensure_date_root d w = (r, w1)"
    and inv1: "base_inv w1 cd ca" and root: "date_roots w1 d = Some r"
    by (rule ensure_date_root_inv)
  from inv1 have roots: "roots_ok w1" and dc: "diag_count_ok w1 cd"
    by (simp_all add: base_inv_def)
  note r = roots_okD(1) [OF roots root]
  have seq: "dict_get (diag_seq_by_date w1 d) 0 + 1 = int (Suc (cd d))"
    using diag_count_okD_Some(1) [OF dc root] by (simp add: dict_get_def)
  have xs1: "items w1 = items w \<or> items w1 = items w @ [new_item d]"
    using e by (cases "date_roots w d") (auto simp: ensure_date_root_new ensure_date_root_old)
  note closed = create_diagnosis_record_closed [OF e r, of t f, unfolded Let_def seq]
  show ?thesis
    by (rule that [OF r xs1]) (simp_all add: closed)
qed

lemma create_action_record_reach:
  assumes inv: "base_inv w cd ca" and res: "resolve_selected_diagnosis w = Some g"
  obtains p0 where "g < length (items w)" and "item_data (items w ! g) = Some p0"
    and "action_seq p0 = Some (int (ca g))"
    and "kind_at (items w) g = Some ''diagnosis''"
    and "create_action_record (d, t, f) w =
      (Inr (length (items w)),
       w\<lparr>items := attach g (Some (p0\<lparr>action_seq := Some (int (Suc (ca g)))\<rparr>))
                   (action_name_of (int (Suc (ca g))))
                   (action_payload_of (d, t, f) (item_text (items w ! g))
                      (action_name_of (int (Suc (ca g)))))
                   (items w),
         current_item := Some (length (items w)),
         log_view := entry_log (action_payload_of (d, t, f) (item_text (items w ! g))
                      (action_name_of (int (Suc (ca g)))))\<rparr>)"
proof -
  from inv have cur: "cur_ok w" and act: "actions_ok (items w)"
    and ac: "action_count_ok (items w) ca"
    by (simp_all add: base_inv_def)
  note k = resolve_is_diagnosis [OF cur act res]
  then have g: "g < length (items w)"
    by (rule kind_at_Some_valid)
  from action_count_okD(1) [OF ac k] obtain p0 where p0: "item_data (items w ! g) = Some p0"
    and s0: "action_seq p0 = Some (int (ca g))"
    by blast
  have seq: "dict_get (action_seq p0) 0 + 1 = int (Suc (ca g))"
    using s0 by (simp add: dict_get_def)
  note closed = create_action_record_closed [OF res g p0, of d t f, unfolded Let_def seq]
  show ?thesis
    by (rule that [OF g p0 s0 k closed])
qed

lemma creates_action_under_iff:
  assumes inv: "base_inv w cd ca"
  shows "creates_action_under w (RunActionClicked now) g \<longleftrightarrow> resolve_selected_diagnosis w = Some g"
proof (cases "resolve_selected_diagnosis w = Some g")
  case True
  obtain d t f where now: "now = (d, t, f)" by (cases now) auto
  from create_action_record_inv(2) [OF inv True, of d t f] True now show ?thesis
    by simp
next
  case False
  then show ?thesis by simp
qed

lemma counter_after:
  assumes "x' = map_option (\<lambda>p. p\<lparr>action_seq := map_option (\<lambda>k. k + 1) (action_seq p)\<rparr>) x"
    and "map_option action_seq x = Some (Some k0)" and "k1 = k0 + 1"
  shows "map_option action_seq x' = Some (Some k1)"
  using assms by (cases x) auto

text \<open>
  C9. After any events, an event leaves the data of every item of the store as it is, but
  for the diagnosis under which the event creates an action: its payload changes in the
  action counter only, which was set and goes up by one. The text of the item stays too.
  Resolving the scope, opening the report and exporting it are functions of the window or
  of the payload that return no window, so they change nothing.
\<close>

theorem payload_frame:
  assumes i: "i < length (items (run evs))"
  shows "item_data (items (handle (run evs) ev) ! i) =
      (if creates_action_under (run evs) ev i
       then map_option (\<lambda>p. p\<lparr>action_seq := map_option (\<lambda>k. k + 1) (action_seq p)\<rparr>)
              (item_data (items (run evs) ! i))
       else item_data (items (run evs) ! i))
    \<and> (creates_action_under (run evs) ev i \<longrightarrow>
         (\<exists>p k. item_data (items (run evs) ! i) = Some p \<and> action_seq p = Some k))
    \<and> item_text (items (handle (run evs) ev) ! i) = item_text (items (run evs) ! i)"
proof -
  let ?w = "run evs"
  note inv = run_inv [of evs]
  show ?thesis
  proof (cases ev)
    case (StartDiagClicked now)
    obtain d t f where now: "now = (d, t, f)" by (cases now) auto
    from inv obtain r xs1 where r: "r < length xs1"
      and xs1: "xs1 = items ?w \<or> xs1 = items ?w @ [new_item d]"
      and its: "items (create_diagnosis_record (d, t, f) ?w)
          = attach r (item_data (xs1 ! r)) (diag_name_of (int (Suc (count_diags evs d))))
              (diagnosis_payload (d, t, f) (diag_name_of (int (Suc (count_diags evs d))))) xs1"
      by (rule create_diagnosis_record_reach [where d = d and t = t and f = f])
    from xs1 i have i1: "i < length xs1" and same: "xs1 ! i = items ?w ! i"
      by (auto simp: nth_append)
    from i1 same show ?thesis
      by (auto simp: StartDiagClicked now its attach_data attach_text)
  next
    case (RunActionClicked now)
    obtain d t f where now: "now = (d, t, f)" by (cases now) auto
    note iff = creates_action_under_iff [OF inv, of now]
    show ?thesis
    proof (cases "resolve_selected_diagnosis ?w")
      case None
      then have "handle ?w ev = ?w"
        by (simp add: RunActionClicked create_action_record_def)
      with None iff show ?thesis
        by (simp add: RunActionClicked)
    next
      case (Some g)
      from inv Some obtain p0 where g: "g < length (items ?w)"
        and p0: "item_data (items ?w ! g) = Some p0"
        and s0: "action_seq p0 = Some (int (count_actions init_window evs g))"
        and closed: "create_action_record (d, t, f) ?w =
          (Inr (length (items ?w)),
           ?w\<lparr>items := attach g (Some (p0\<lparr>action_seq := Some (int (Suc (count_actions init_window evs g)))\<rparr>))
                   (action_name_of (int (Suc (count_actions init_window evs g))))
                   (action_payload_of (d, t, f) (item_text (items ?w ! g))
                      (action_name_of (int (Suc (count_actions init_window evs g)))))
                   (items ?w),
             current_item := Some (length (items ?w)),
             log_view := entry_log (action_payload_of (d, t, f) (item_text (items ?w ! g))
                      (action_name_of (int (Suc (count_actions init_window evs g)))))\<rparr>)"
        by (rule create_action_record_reach [where d = d and t = t and f = f])
      have c: "creates_action_under ?w ev i \<longleftrightarrow> i = g"
        using iff Some by (auto simp: RunActionClicked)
      show ?thesis
      proof (cases "i = g")
        case True
        with i p0 s0 c show ?thesis
          by (simp add: RunActionClicked now closed attach_data attach_text)
      next
        case False
        with i c show ?thesis
          by (simp add: RunActionClicked now closed attach_data attach_text)
      qed
    qed
  next
    case (ItemClicked j)
    then show ?thesis
      by (simp add: on_tree_item_clicked_fields setCurrentItem_def)
  next
    case (CurrentItemChanged c)
    then show ?thesis
      by (cases c) (simp_all add: setCurrentItem_def)
  next
    case ReportClicked
    then show ?thesis by simp
  qed
qed

theorem payload_frame_witness:
  "1 < length (items (run [StartDiagClicked (''2024-01-01'', ''10:00:00'', ''2024-01-01 10:00:00'')]))
   \<and> creates_action_under
        (run [StartDiagClicked (''2024-01-01'', ''10:00:00'', ''2024-01-01 10:00:00'')])
        (RunActionClicked (''2024-01-01'', ''10:00:05'', ''2024-01-01 10:00:05'')) 1
   \<and> map_option action_seq
        (item_data (items (run [StartDiagClicked (''2024-01-01'', ''10:00:00'', ''2024-01-01 10:00:00'')]) ! 1))
      = Some (Some 0)
   \<and> map_option action_seq
        (item_data
          (items (handle (run [StartDiagClicked (''2024-01-01'', ''10:00:00'', ''2024-01-01 10:00:00'')])
                   (RunActionClicked (''2024-01-01'', ''10:00:05'', ''2024-01-01 10:00:05''))) ! 1))
      = Some (Some 1)
   \<and> item_data
        (items (handle (run [StartDiagClicked (''2024-01-01'', ''10:00:00'', ''2024-01-01 10:00:00'')])
                 (RunActionClicked (''2024-01-01'', ''10:00:05'', ''2024-01-01 10:00:05''))) ! 0)
      = item_data (items (run [StartDiagClicked (''2024-01-01'', ''10:00:00'', ''2024-01-01 10:00:00'')]) ! 0)"
proof -
  let ?w = "run [StartDiagClicked (''2024-01-01'', ''10:00:00'', ''2024-01-01 10:00:00'')]"
  let ?ev = "RunActionClicked (''2024-01-01'', ''10:00:05'', ''2024-01-01 10:00:05'')"
  have one: "1 < length (items ?w)"
    by code_simp
  have zero: "0 < length (items ?w)"
    by code_simp
  have c1: "creates_action_under ?w ?ev 1"
    by code_simp
  have c0: "\<not> creates_action_under ?w ?ev 0"
    by code_simp
  have before: "map_option action_seq (item_data (items ?w ! 1)) = Some (Some 0)"
    by code_simp
  have fr: "item_data (items (handle ?w ?ev) ! 1)
      = map_option (\<lambda>p. p\<lparr>action_seq := map_option (\<lambda>k. k + 1) (action_seq p)\<rparr>)
          (item_data (items ?w ! 1))"
    using conjunct1 [OF payload_frame [OF one, of ?ev]] c1 by (simp only: if_True)
  have after: "map_option action_seq (item_data (items (handle ?w ?ev) ! 1)) = Some (Some 1)"
    by (rule counter_after [OF fr before]) simp
  have same: "item_data (items (handle ?w ?ev) ! 0) = item_data (items ?w ! 0)"
    using conjunct1 [OF payload_frame [OF zero, of ?ev]] c0 by (simp only: if_False)
  show ?thesis
    by (intro conjI one c1 before after same)
qed

lemma action_step:
  assumes inv: "base_inv w cd ca" and res: "resolve_selected_diagnosis w = Some g"
  shows "fst (create_action_record (d, t, f) w) = Inr (length (items w))"
    and "item_data (items (snd (create_action_record (d, t, f) w)) ! length (items w))
          = Some (action_payload_of (d, t, f) (item_text (items w ! g))
                    (action_name_of (int (Suc (ca g)))))"
    and "item_text (items (snd (create_action_record (d, t, f) w)) ! length (items w))
          = action_name_of (int (Suc (ca g)))"
    and "item_children (items (snd (create_action_record (d, t, f) w)) ! g)
          = item_children (items w ! g) @ [length (items w)]"
    and "\<exists>p. item_data (items w ! g) = Some p \<and> action_seq p = Some (int (ca g))
            \<and> item_data (items (snd (create_action_record (d, t, f) w)) ! g)
                = Some (p\<lparr>action_seq := Some (int (ca g) + 1)\<rparr>)"
    and "length (item_children (items w ! g)) = ca g"
    and "kind_at (items w) g = Some ''diagnosis''"
    and "length (items (snd (create_action_record (d, t, f) w))) = Suc (length (items w))"
proof -
  from inv res obtain p0 where g: "g < length (items w)"
    and p0: "item_data (items w ! g) = Some p0"
    and s0: "action_seq p0 = Some (int (ca g))"
    and k: "kind_at (items w) g = Some ''diagnosis''"
    and closed: "create_action_record (d, t, f) w =
      (Inr (length (items w)),
       w\<lparr>items := attach g (Some (p0\<lparr>action_seq := Some (int (Suc (ca g)))\<rparr>))
                   (action_name_of (int (Suc (ca g))))
                   (action_payload_of (d, t, f) (item_text (items w ! g))
                      (action_name_of (int (Suc (ca g)))))
                   (items w),
         current_item := Some (length (items w)),
         log_view := entry_log (action_payload_of (d, t, f) (item_text (items w ! g))
                      (action_name_of (int (Suc (ca g)))))\<rparr>)"
    by (rule create_action_record_reach [where d = d and t = t and f = f])
  from inv have ac: "action_count_ok (items w) ca"
    by (simp add: base_inv_def)
  show "fst (create_action_record (d, t, f) w) = Inr (length (items w))"
    by (simp add: closed)
  show "item_data (items (snd (create_action_record (d, t, f) w)) ! length (items w))
          = Some (action_payload_of (d, t, f) (item_text (items w ! g))
                    (action_name_of (int (Suc (ca g)))))"
    by (simp add: closed attach_nth_new)
  show "item_text (items (snd (create_action_record (d, t, f) w)) ! length (items w))
          = action_name_of (int (Suc (ca g)))"
    by (simp add: closed attach_nth_new)
  show "item_children (items (snd (create_action_record (d, t, f) w)) ! g)
          = item_children (items w ! g) @ [length (items w)]"
    using g by (simp add: closed attach_children)
  show "\<exists>p. item_data (items w ! g) = Some p \<and> action_seq p = Some (int (ca g))
            \<and> item_data (items (snd (create_action_record (d, t, f) w)) ! g)
                = Some (p\<lparr>action_seq := Some (int (ca g) + 1)\<rparr>)"
    using g p0 s0 by (simp add: closed attach_data add.commute)
  have "length (child_texts (items w) g) = ca g"
    by (simp add: action_count_okD(2) [OF ac k])
  then show "length (item_children (items w ! g)) = ca g"
    by (simp add: child_texts_def)
  show "kind_at (items w) g = Some ''diagnosis''"
    by (rule k)
  show "length (items (snd (create_action_record (d, t, f) w))) = Suc (length (items w))"
    by (simp add: closed)
qed

text \<open>
  C10. After any events, the action counter of every diagnosis item is the number of its
  children, and these are actions. A diagnosis starts with the counter 0 and no children;
  an event that creates an action under a diagnosis appends exactly one child, an action,
  and adds one to the counter.
\<close>

theorem action_counter_counts_children:
  "(kind_at (items (run evs)) g = Some ''diagnosis'' \<longrightarrow>
      (\<exists>p. item_data (items (run evs) ! g) = Some p
           \<and> action_seq p = Some (int (length (item_children (items (run evs) ! g)))))
      \<and> list_all (\<lambda>c. kind_at (items (run evs)) c = Some ''action'')
          (item_children (items (run evs) ! g)))
   \<and> (\<exists>n p. current_item (handle (run evs) (StartDiagClicked now)) = Some n
          \<and> item_data (items (handle (run evs) (StartDiagClicked now)) ! n) = Some p
          \<and> kind p = Some ''diagnosis'' \<and> action_seq p = Some 0
          \<and> item_children (items (handle (run evs) (StartDiagClicked now)) ! n) = [])
   \<and> (creates_action_under (run evs) ev g \<longrightarrow>
        item_children (items (handle (run evs) ev) ! g)
          = item_children (items (run evs) ! g) @ [length (items (run evs))]
        \<and> kind_at (items (handle (run evs) ev)) (length (items (run evs))) = Some ''action''
        \<and> (\<exists>p. item_data (items (run evs) ! g) = Some p
               \<and> action_seq p = Some (int (length (item_children (items (run evs) ! g))))
               \<and> item_data (items (handle (run evs) ev) ! g)
                   = Some (p\<lparr>action_seq :=
                              Some (int (length (item_children (items (run evs) ! g))) + 1)\<rparr>)))"
proof (intro conjI impI)
  let ?w = "run evs"
  note inv = run_inv [of evs]
  note invD = run_invD [of evs]
  {
    assume k: "kind_at (items ?w) g = Some ''diagnosis''"
    note ac = action_count_okD [OF invD(7) k]
    have "length (child_texts (items ?w) g) = count_actions init_window evs g"
      by (simp add: ac(2))
    then have len: "length (item_children (items ?w ! g)) = count_actions init_window evs g"
      by (simp add: child_texts_def)
    with ac(1) show "\<exists>p. item_data (items ?w ! g) = Some p
           \<and> action_seq p = Some (int (length (item_children (items ?w ! g))))"
      by simp
    from ac(3) show "list_all (\<lambda>c. kind_at (items ?w) c = Some ''action'')
          (item_children (items ?w ! g))"
      by (simp add: list_all_iff)
  }
  {
    obtain d t f where now: "now = (d, t, f)" by (cases now) auto
    from inv obtain r xs1 where r: "r < length xs1"
      and its: "items (create_diagnosis_record (d, t, f) ?w)
          = attach r (item_data (xs1 ! r)) (diag_name_of (int (Suc (count_diags evs d))))
              (diagnosis_payload (d, t, f) (diag_name_of (int (Suc (count_diags evs d))))) xs1"
      and cur: "current_item (create_diagnosis_record (d, t, f) ?w) = Some (length xs1)"
      by (rule create_diagnosis_record_reach [where d = d and t = t and f = f])
    show "\<exists>n p. current_item (handle ?w (StartDiagClicked now)) = Some n
          \<and> item_data (items (handle ?w (StartDiagClicked now)) ! n) = Some p
          \<and> kind p = Some ''diagnosis'' \<and> action_seq p = Some 0
          \<and> item_children (items (handle ?w (StartDiagClicked now)) ! n) = []"
      by (intro exI [of _ "length xs1"]
          exI [of _ "diagnosis_payload (d, t, f) (diag_name_of (int (Suc (count_diags evs d))))"])
        (simp add: now cur its attach_nth_new diagnosis_payload_fields)
  }
  {
    assume c: "creates_action_under ?w ev g"
    then obtain now where ev: "ev = RunActionClicked now"
      by (cases ev) simp_all
    obtain d t f where now: "now = (d, t, f)" by (cases now) auto
    from c ev have res: "resolve_selected_diagnosis ?w = Some g"
      by simp
    note st = action_step [OF inv res]
    have h: "handle ?w ev = snd (create_action_record (d, t, f) ?w)"
      by (simp add: ev now)
    show "item_children (items (handle ?w ev) ! g)
          = item_children (items ?w ! g) @ [length (items ?w)]"
      unfolding h by (rule st(4))
    have "length (items (handle ?w ev)) = Suc (length (items ?w))"
      unfolding h by (rule st(8))
    then show "kind_at (items (handle ?w ev)) (length (items ?w)) = Some ''action''"
      unfolding h by (simp add: kind_at_def st(2) kind_of_data_def action_payload_fields)
    from st(5,6) show "\<exists>p. item_data (items ?w ! g) = Some p
               \<and> action_seq p = Some (int (length (item_children (items ?w ! g))))
               \<and> item_data (items (handle ?w ev) ! g)
                   = Some (p\<lparr>action_seq :=
                              Some (int (length (item_children (items ?w ! g))) + 1)\<rparr>)"
      unfolding h by simp
  }
qed

theorem action_counter_counts_children_witness:
  "kind_at (items (run [StartDiagClicked (''2024-01-01'', ''10:00:00'', ''2024-01-01 10:00:00'')])) 1
     = Some ''diagnosis''
   \<and> creates_action_under
        (run [StartDiagClicked (''2024-01-01'', ''10:00:00'', ''2024-01-01 10:00:00'')])
        (RunActionClicked (''2024-01-01'', ''10:00:05'', ''2024-01-01 10:00:05'')) 1
   \<and> map_option action_seq
        (item_data (items (run [StartDiagClicked (''2024-01-01'', ''10:00:00'', ''2024-01-01 10:00:00'')]) ! 1))
      = Some (Some 0)
   \<and> item_children
        (items (handle (run [StartDiagClicked (''2024-01-01'', ''10:00:00'', ''2024-01-01 10:00:00'')])
                 (RunActionClicked (''2024-01-01'', ''10:00:05'', ''2024-01-01 10:00:05''))) ! 1)
      = [2]
   \<and> map_option action_seq
        (item_data
          (items (handle (run [StartDiagClicked (''2024-01-01'', ''10:00:00'', ''2024-01-01 10:00:00'')])
                   (RunActionClicked (''2024-01-01'', ''10:00:05'', ''2024-01-01 10:00:05''))) ! 1))
      = Some (Some 1)"
proof -
  let ?w = "run [StartDiagClicked (''2024-01-01'', ''10:00:00'', ''2024-01-01 10:00:00'')]"
  let ?ev = "RunActionClicked (''2024-01-01'', ''10:00:05'', ''2024-01-01 10:00:05'')"
  have k: "kind_at (items ?w) 1 = Some ''diagnosis''"
    by code_simp
  have c: "creates_action_under ?w ?ev 1"
    by code_simp
  have none: "item_children (items ?w ! 1) = []"
    by code_simp
  have len: "length (items ?w) = 2"
    by code_simp
  note t = action_counter_counts_children
      [of "[StartDiagClicked (''2024-01-01'', ''10:00:00'', ''2024-01-01 10:00:00'')]" 1
        "(''2024-01-01'', ''10:00:00'', ''2024-01-01 10:00:00'')" ?ev, unfolded none len]
  from mp [OF conjunct1 [OF t] k] have before:
    "map_option action_seq (item_data (items ?w ! 1)) = Some (Some 0)"
    by auto
  note step = mp [OF conjunct2 [OF conjunct2 [OF t]] c]
  from step have kids: "item_children (items (handle ?w ?ev) ! 1) = [2]"
    by simp
  from step have after: "map_option action_seq (item_data (items (handle ?w ?ev) ! 1)) = Some (Some 1)"
    by auto
  show ?thesis
    by (intro conjI k c before kids after)
qed

section \<open>Titles\<close>

lemma upt_from_1_nth: "i < n \<Longrightarrow> [1..<Suc n] ! i = Suc i"
proof -
  assume "i < n"
  then have "1 + i < Suc n" by simp
  then have "[1..<Suc n] ! i = 1 + i" by (rule nth_upt)
  then show ?thesis by simp
qed

text \<open>
  C4, as amended. After any events, when an action is created at date \<open>d\<close> under the
  diagnosis \<open>g\<close> in scope, the new action is the last item of the store and the last child
  of \<open>g\<close>, its number \<open>seq\<close> is one more than the number of actions created under \<open>g\<close>
  before, and its title is \<open>d\<close>, a space, the text of the item \<open>g\<close> (its display name, not
  the title stored in its payload), \<open>" - "\<close>, the action prefix followed by \<open>seq\<close>, a space
  and the closing word.
\<close>

theorem action_title_uses_item_text:
  assumes res: "resolve_selected_diagnosis (run evs) = Some g"
  shows "fst (create_action_record (d, t, f) (run evs)) = Inr (length (items (run evs)))
    \<and> title_of_data
         (item_data (items (snd (create_action_record (d, t, f) (run evs))) ! length (items (run evs))))
       = Some (d @ '' '' @ item_text (items (run evs) ! g) @ '' - ''
               @ action_name_of (int (Suc (count_actions init_window evs g))) @ '' '' @ ko_report)
    \<and> item_text (items (snd (create_action_record (d, t, f) (run evs))) ! length (items (run evs)))
       = action_name_of (int (Suc (count_actions init_window evs g)))
    \<and> item_children (items (snd (create_action_record (d, t, f) (run evs))) ! g)
       = item_children (items (run evs) ! g) @ [length (items (run evs))]
    \<and> length (item_children (items (run evs) ! g)) = count_actions init_window evs g"
proof -
  note st = action_step [OF run_inv res]
  show ?thesis
    by (simp add: st(1,2,3,4,6) title_of_data_def action_payload_fields)
qed

theorem action_title_uses_item_text_witness:
  "resolve_selected_diagnosis
     (run [StartDiagClicked (''2024-01-01'', ''10:00:00'', ''2024-01-01 10:00:00'')]) = Some 1
   \<and> title_of_data
        (item_data
          (items (snd (create_action_record (''2024-01-02'', ''00:00:01'', ''2024-01-02 00:00:01'')
                   (run [StartDiagClicked (''2024-01-01'', ''10:00:00'', ''2024-01-01 10:00:00'')])))
           ! length (items (run [StartDiagClicked (''2024-01-01'', ''10:00:00'', ''2024-01-01 10:00:00'')]))))
      = Some (''2024-01-02'' @ '' ''
              @ item_text (items (run [StartDiagClicked (''2024-01-01'', ''10:00:00'', ''2024-01-01 10:00:00'')]) ! 1)
              @ '' - ''
              @ action_name_of
                  (int (Suc (count_actions init_window
                     [StartDiagClicked (''2024-01-01'', ''10:00:00'', ''2024-01-01 10:00:00'')] 1)))
              @ '' '' @ ko_report)"
proof -
  let ?evs = "[StartDiagClicked (''2024-01-01'', ''10:00:00'', ''2024-01-01 10:00:00'')]"
  have res: "resolve_selected_diagnosis (run ?evs) = Some 1"
    by code_simp
  note t = action_title_uses_item_text
    [OF res, of "''2024-01-02''" "''00:00:01''" "''2024-01-02 00:00:01''"]
  show ?thesis
    by (rule conjI [OF res conjunct1 [OF conjunct2 [OF t]]])
qed

text \<open>
  C4 as stated fails: after one diagnosis on 2024-01-01, whose stored title is
  \<open>2024-01-01\<close>, the name of diagnosis 1 and the closing word, the first action created
  under it on the same date is titled with the name of diagnosis 1 alone, and not with
  the stored title.
\<close>

theorem action_title_stored_title_counterexample:
  "resolve_selected_diagnosis
     (run [StartDiagClicked (''2024-01-01'', ''10:00:00'', ''2024-01-01 10:00:00'')]) = Some 1
   \<and> title_of_data
        (item_data (items (run [StartDiagClicked (''2024-01-01'', ''10:00:00'', ''2024-01-01 10:00:00'')]) ! 1))
      = Some (''2024-01-01 '' @ diag_name_of 1 @ '' '' @ ko_report)
   \<and> fst (create_action_record (''2024-01-01'', ''10:00:05'', ''2024-01-01 10:00:05'')
            (run [StartDiagClicked (''2024-01-01'', ''10:00:00'', ''2024-01-01 10:00:00'')])) = Inr 2
   \<and> title_of_data
        (item_data
          (items (snd (create_action_record (''2024-01-01'', ''10:00:05'', ''2024-01-01 10:00:05'')
                   (run [StartDiagClicked (''2024-01-01'', ''10:00:00'', ''2024-01-01 10:00:00'')]))) ! 2))
      = Some (''2024-01-01 '' @ diag_name_of 1 @ '' - '' @ action_name_of 1 @ '' '' @ ko_report)
   \<and> title_of_data
        (item_data
          (items (snd (create_action_record (''2024-01-01'', ''10:00:05'', ''2024-01-01 10:00:05'')
                   (run [StartDiagClicked (''2024-01-01'', ''10:00:00'', ''2024-01-01 10:00:00'')]))) ! 2))
      \<noteq> Some (''2024-01-01 '' @ (''2024-01-01 '' @ diag_name_of 1 @ '' '' @ ko_report)
               @ '' - '' @ action_name_of 1 @ '' '' @ ko_report)"
  by code_simp

text \<open>
  C5, as amended. After any events, the diagnosis at position \<open>i\<close> (from 0) under the item
  of date \<open>d\<close>, that is the diagnosis number \<open>i + 1\<close> of \<open>d\<close>, is titled \<open>d\<close>, a space, the
  diagnosis prefix followed by \<open>i + 1\<close>, a space and the closing word. When it is in scope
  and an action is created at date \<open>d'\<close>, the action becomes its last child, with number
  \<open>j\<close> one more than the children it had, and is titled \<open>d'\<close>, a space, the diagnosis
  prefix followed by \<open>i + 1\<close>, \<open>" - "\<close>, the action prefix followed by \<open>j\<close>, a space and the
  closing word: the date of the title is the date at which the action is created, which
  is \<open>d\<close> only when the action is created on the date of its diagnosis.
\<close>

theorem titles_by_numbers:
  assumes root: "date_roots (run evs) d = Some r"
    and i: "i < length (item_children (items (run evs) ! r))"
  shows "title_of_data (item_data (items (run evs) ! (item_children (items (run evs) ! r) ! i)))
       = Some (d @ '' '' @ diag_name_of (int (Suc i)) @ '' '' @ ko_report)
    \<and> (resolve_selected_diagnosis (run evs) = Some (item_children (items (run evs) ! r) ! i) \<longrightarrow>
         fst (create_action_record (d', t, f) (run evs)) = Inr (length (items (run evs)))
         \<and> item_children (items (snd (create_action_record (d', t, f) (run evs)))
              ! (item_children (items (run evs) ! r) ! i))
            = item_children (items (run evs) ! (item_children (items (run evs) ! r) ! i))
              @ [length (items (run evs))]
         \<and> title_of_data
              (item_data (items (snd (create_action_record (d', t, f) (run evs)))
                 ! length (items (run evs))))
            = Some (d' @ '' '' @ diag_name_of (int (Suc i)) @ '' - ''
                    @ action_name_of
                        (int (Suc (length (item_children
                           (items (run evs) ! (item_children (items (run evs) ! r) ! i))))))
                    @ '' '' @ ko_report))"
proof (intro conjI impI)
  let ?w = "run evs"
  let ?g = "item_children (items ?w ! r) ! i"
  note inv = run_invD [of evs]
  note dc = diag_count_okD_Some [OF inv(6) root]
  have n: "length (item_children (items ?w ! r)) = count_diags evs d"
    using arg_cong [OF dc(2), of length] by (simp add: child_texts_def)
  with i have i': "i < count_diags evs d" by simp
  have "child_titles (items ?w) r ! i
      = Some (d @ '' '' @ diag_name_of (int (Suc i)) @ '' '' @ ko_report)"
    using i' by (simp only: dc(3) nth_map length_upt diff_Suc_1 upt_from_1_nth)
  with i show "title_of_data (item_data (items ?w ! ?g))
       = Some (d @ '' '' @ diag_name_of (int (Suc i)) @ '' '' @ ko_report)"
    by (simp add: child_titles_def)
  have "child_texts (items ?w) r ! i = diag_name_of (int (Suc i))"
    using i' by (simp only: dc(2) nth_map length_upt diff_Suc_1 upt_from_1_nth)
  with i have name: "item_text (items ?w ! ?g) = diag_name_of (int (Suc i))"
    by (simp add: child_texts_def)
  assume res: "resolve_selected_diagnosis ?w = Some ?g"
  note st = action_step [OF run_inv res]
  show "fst (create_action_record (d', t, f) ?w) = Inr (length (items ?w))"
    by (rule st(1))
  show "item_children (items (snd (create_action_record (d', t, f) ?w)) ! ?g)
            = item_children (items ?w ! ?g) @ [length (items ?w)]"
    by (rule st(4))
  show "title_of_data
              (item_data (items (snd (create_action_record (d', t, f) ?w)) ! length (items ?w)))
            = Some (d' @ '' '' @ diag_name_of (int (Suc i)) @ '' - ''
                    @ action_name_of (int (Suc (length (item_children (items ?w ! ?g)))))
                    @ '' '' @ ko_report)"
    by (simp add: st(2,6) title_of_data_def action_payload_fields name)
qed

theorem titles_by_numbers_witness:
  "date_roots (run [StartDiagClicked (''2024-01-01'', ''10:00:00'', ''2024-01-01 10:00:00'')])
     ''2024-01-01'' = Some 0
   \<and> item_children
        (items (run [StartDiagClicked (''2024-01-01'', ''10:00:00'', ''2024-01-01 10:00:00'')]) ! 0) = [1]
   \<and> resolve_selected_diagnosis
        (run [StartDiagClicked (''2024-01-01'', ''10:00:00'', ''2024-01-01 10:00:00'')]) = Some 1
   \<and> title_of_data
        (item_data (items (run [StartDiagClicked (''2024-01-01'', ''10:00:00'', ''2024-01-01 10:00:00'')]) ! 1))
      = Some (''2024-01-01'' @ '' '' @ diag_name_of 1 @ '' '' @ ko_report)
   \<and> title_of_data
        (item_data
          (items (snd (create_action_record (''2024-01-02'', ''00:00:01'', ''2024-01-02 00:00:01'')
                   (run [StartDiagClicked (''2024-01-01'', ''10:00:00'', ''2024-01-01 10:00:00'')]))) ! 2))
      = Some (''2024-01-02'' @ '' '' @ diag_name_of 1 @ '' - '' @ action_name_of 1 @ '' '' @ ko_report)"
proof -
  let ?w = "run [StartDiagClicked (''2024-01-01'', ''10:00:00'', ''2024-01-01 10:00:00'')]"
  have root: "date_roots ?w ''2024-01-01'' = Some 0"
    by code_simp
  have kids: "item_children (items ?w ! 0) = [1]"
    by code_simp
  have i: "0 < length (item_children (items ?w ! 0))"
    by (simp add: kids)
  have res: "resolve_selected_diagnosis ?w = Some 1"
    by code_simp
  have len: "length (items ?w) = 2"
    by code_simp
  have none: "item_children (items ?w ! 1) = []"
    by code_simp
  note t = titles_by_numbers
    [OF root i, of "''2024-01-02''" "''00:00:01''" "''2024-01-02 00:00:01''", unfolded kids len]
  have a: "title_of_data (item_data (items ?w ! 1))
      = Some (''2024-01-01'' @ '' '' @ diag_name_of 1 @ '' '' @ ko_report)"
    using conjunct1 [OF t] by simp
  have b: "title_of_data
        (item_data
          (items (snd (create_action_record (''2024-01-02'', ''00:00:01'', ''2024-01-02 00:00:01'') ?w)) ! 2))
      = Some (''2024-01-02'' @ '' '' @ diag_name_of 1 @ '' - '' @ action_name_of 1 @ '' '' @ ko_report)"
    using conjunct2 [OF t] res none by simp
  show ?thesis
    by (intro conjI root kids res a b)
qed

text \<open>
  C5 as stated fails: the first action under the first diagnosis of 2024-01-01, created
  on 2024-01-02, is not titled with the date 2024-01-01.
\<close>

theorem action_title_date_counterexample:
  "date_roots (run [StartDiagClicked (''2024-01-01'', ''23:59:59'', ''2024-01-01 23:59:59'')])
     ''2024-01-01'' = Some 0
   \<and> item_children
        (items (run [StartDiagClicked (''2024-01-01'', ''23:59:59'', ''2024-01-01 23:59:59'')]) ! 0) = [1]
   \<and> resolve_selected_diagnosis
        (run [StartDiagClicked (''2024-01-01'', ''23:59:59'', ''2024-01-01 23:59:59'')]) = Some 1
   \<and> fst (create_action_record (''2024-01-02'', ''00:00:01'', ''2024-01-02 00:00:01'')
            (run [StartDiagClicked (''2024-01-01'', ''23:59:59'', ''2024-01-01 23:59:59'')])) = Inr 2
   \<and> item_children
        (items (snd (create_action_record (''2024-01-02'', ''00:00:01'', ''2024-01-02 00:00:01'')
                 (run [StartDiagClicked (''2024-01-01'', ''23:59:59'', ''2024-01-01 23:59:59'')]))) ! 1)
      = [2]
   \<and> title_of_data
        (item_data
          (items (snd (create_action_record (''2024-01-02'', ''00:00:01'', ''2024-01-02 00:00:01'')
                   (run [StartDiagClicked (''2024-01-01'', ''23:59:59'', ''2024-01-01 23:59:59'')]))) ! 2))
      \<noteq> Some (''2024-01-01 '' @ diag_name_of 1 @ '' - '' @ action_name_of 1 @ '' '' @ ko_report)"
  by code_simp

end
